theory Spec2Isabelle
  imports Complex_Main "HOL-Library.Word"
begin

section \<open>JavaScript values used by \<^verbatim>\<open>src/index.tsx\<close>\<close>

text \<open>
  A JavaScript string is a sequence of UTF-16 code units. The transcriptions the
  program handles are Japanese text, so the model keeps the full sixteen bits of
  every unit; ASCII literals of the source are written with \<open>ustr\<close>.
\<close>

type_synonym jsstring = "16 word list"

definition ustr :: "string \<Rightarrow> jsstring" where
  "ustr s = map of_char s"

text \<open>
  A JavaScript number is an IEEE double. A finite double is modelled by the real
  number it denotes; the three special values are kept apart, because
  \<^verbatim>\<open>formatRemainingTime\<close> tests for them. The operations the program applies to the
  finite numbers it meets (comparison, \<^verbatim>\<open>Math.min\<close>, \<^verbatim>\<open>Math.max\<close>, adding 30 to a
  multiple of 30, multiplying a 32-bit float sample by \<open>32767\<close> or \<open>32768\<close>,
  \<^verbatim>\<open>Math.floor\<close>, \<^verbatim>\<open>%\<close>) are exact on doubles of the sizes an audio buffer can
  produce, so real arithmetic computes what the doubles do.
\<close>

datatype jsnum = NaN | PosInf | NegInf | Fin real

fun isNaN :: "jsnum \<Rightarrow> bool" where
  "isNaN NaN = True"
| "isNaN _ = False"

fun isFinite :: "jsnum \<Rightarrow> bool" where
  "isFinite (Fin _) = True"
| "isFinite _ = False"

text \<open>The comparison \<^verbatim>\<open>x < 0\<close>: false for \<^verbatim>\<open>NaN\<close>, true for \<^verbatim>\<open>-Infinity\<close>.\<close>

fun lt_zero :: "jsnum \<Rightarrow> bool" where
  "lt_zero (Fin x) = (x < 0)"
| "lt_zero NegInf = True"
| "lt_zero _ = False"

text \<open>\<^verbatim>\<open>ToIntegerOrInfinity\<close> and \<^verbatim>\<open>| 0\<close> on a finite number: truncation towards zero.\<close>

definition trunc :: "real \<Rightarrow> int" where
  "trunc x = (if x < 0 then \<lceil>x\<rceil> else \<lfloor>x\<rfloor>)"

text \<open>\<^verbatim>\<open>Math.round\<close>: the nearest integer, a tie going up.\<close>

definition Math_round :: "real \<Rightarrow> int" where
  "Math_round x = \<lfloor>x + 1 / 2\<rfloor>"

text \<open>The remainder \<^verbatim>\<open>x % y\<close> of two finite numbers: it takes the sign of \<open>x\<close>.\<close>

definition js_rem :: "real \<Rightarrow> real \<Rightarrow> real" where
  "js_rem x y = x - y * of_int (trunc (x / y))"

definition digit :: "int \<Rightarrow> 16 word" where
  "digit d = of_int (48 + d)"

text \<open>
  \<^verbatim>\<open>String(n)\<close> for an integer \<open>n\<close>: its decimal digits, with a minus sign when it is
  negative (below \<open>10\<^sup>2\<^sup>1\<close> in size; beyond that JavaScript switches to exponent
  notation, which no number of this program reaches).
\<close>

function digits :: "int \<Rightarrow> jsstring" where
  "digits n = (if n < 10 then [digit n] else digits (n div 10) @ [digit (n mod 10)])"
  by pat_completeness auto
termination
  by (relation "measure nat") auto

declare digits.simps [simp del]

definition String_of_int :: "int \<Rightarrow> jsstring" where
  "String_of_int n = (if n < 0 then ustr ''-'' @ digits (- n) else digits n)"

text \<open>\<^verbatim>\<open>s.padStart(n, '0')\<close>.\<close>

definition padStart0 :: "nat \<Rightarrow> jsstring \<Rightarrow> jsstring" where
  "padStart0 n s = replicate (n - length s) (of_char CHR ''0'') @ s"

section \<open>Time formatting\<close>

subsection \<open>\<^verbatim>\<open>formatTimeVTT\<close> (lines 99--103)\<close>

text \<open>
  The source builds \<^verbatim>\<open>new Date(0)\<close>, calls \<^verbatim>\<open>setSeconds(seconds)\<close> and cuts
  \<^verbatim>\<open>toISOString().substr(11, 12)\<close>. The functions below are the ones ECMAScript
  defines for time values (integer milliseconds since the epoch). \<^verbatim>\<open>setSeconds\<close>
  works on local time: it converts the time value with \<^verbatim>\<open>LocalTime\<close>, replaces the
  seconds field and converts back with \<^verbatim>\<open>UTC\<close>, while \<^verbatim>\<open>toISOString\<close> prints UTC. The
  host's offset from UTC in milliseconds is the parameter \<open>tza\<close>; it is the offset in
  force around the epoch (for the zone Africa/Monrovia that is \<open>-2670000\<close>, minus 44
  minutes and 30 seconds) and is taken to be the same at every time rendered.
  \<^verbatim>\<open>toISOString\<close> has the shape \<^verbatim>\<open>YYYY-MM-DDTHH:mm:ss.sssZ\<close> for the years 0 to 9999, so
  characters 11 to 22 are the time of day; an audio buffer's duration stays far inside
  that range.
\<close>

definition msPerSecond :: int where "msPerSecond = 1000"
definition msPerMinute :: int where "msPerMinute = 60000"
definition msPerHour :: int where "msPerHour = 3600000"
definition msPerDay :: int where "msPerDay = 86400000"

definition Day :: "int \<Rightarrow> int" where
  "Day t = t div msPerDay"

definition HourFromTime :: "int \<Rightarrow> int" where
  "HourFromTime t = (t div msPerHour) mod 24"

definition MinFromTime :: "int \<Rightarrow> int" where
  "MinFromTime t = (t div msPerMinute) mod 60"

definition SecFromTime :: "int \<Rightarrow> int" where
  "SecFromTime t = (t div msPerSecond) mod 60"

definition msFromTime :: "int \<Rightarrow> int" where
  "msFromTime t = t mod msPerSecond"

text \<open>\<^verbatim>\<open>MakeTime\<close> applies \<^verbatim>\<open>ToIntegerOrInfinity\<close> to each argument; only the seconds can
  have a fraction here.\<close>

definition MakeTime :: "int \<Rightarrow> int \<Rightarrow> real \<Rightarrow> int \<Rightarrow> int" where
  "MakeTime hour minute sec ms =
     hour * msPerHour + minute * msPerMinute + trunc sec * msPerSecond + ms"

definition MakeDate :: "int \<Rightarrow> int \<Rightarrow> int" where
  "MakeDate day time = day * msPerDay + time"

definition LocalTime :: "int \<Rightarrow> int \<Rightarrow> int" where
  "LocalTime tza t = t + tza"

definition UTC :: "int \<Rightarrow> int \<Rightarrow> int" where
  "UTC tza t = t - tza"

definition setSeconds :: "int \<Rightarrow> int \<Rightarrow> real \<Rightarrow> int" where
  "setSeconds tza t0 sec =
     (let t = LocalTime tza t0;
          date = MakeDate (Day t) (MakeTime (HourFromTime t) (MinFromTime t) sec (msFromTime t))
      in UTC tza date)"

definition dec2 :: "int \<Rightarrow> jsstring" where
  "dec2 n = [digit (n div 10 mod 10), digit (n mod 10)]"

definition dec3 :: "int \<Rightarrow> jsstring" where
  "dec3 n = [digit (n div 100 mod 10), digit (n div 10 mod 10), digit (n mod 10)]"

text \<open>\<^verbatim>\<open>toISOString().substr(11, 12)\<close>: \<^verbatim>\<open>HH:mm:ss.sss\<close>.\<close>

definition isoTimeOfDay :: "int \<Rightarrow> jsstring" where
  "isoTimeOfDay t =
     dec2 (HourFromTime t) @ ustr '':'' @ dec2 (MinFromTime t) @ ustr '':'' @
     dec2 (SecFromTime t) @ ustr ''.'' @ dec3 (msFromTime t)"

definition formatTimeVTT :: "int \<Rightarrow> real \<Rightarrow> jsstring" where
  "formatTimeVTT tza seconds = isoTimeOfDay (setSeconds tza 0 seconds)"

subsection \<open>\<^verbatim>\<open>formatRemainingTime\<close> (lines 108--117)\<close>

definition formatRemainingTime :: "jsnum \<Rightarrow> jsstring" where
  "formatRemainingTime seconds =
     (if isNaN seconds \<or> lt_zero seconds \<or> \<not> isFinite seconds then ustr ''--:--''
      else case seconds of
        Fin x \<Rightarrow>
          (let minutes = \<lfloor>x / 60\<rfloor>;
               remainingSeconds = Math_round (js_rem x 60);
               formattedMinutes = padStart0 2 (String_of_int minutes);
               formattedSeconds = padStart0 2 (String_of_int remainingSeconds)
           in formattedMinutes @ ustr '':'' @ formattedSeconds)
      | _ \<Rightarrow> ustr ''--:--'')"

section \<open>WAV encoding: \<^verbatim>\<open>audioBufferToWavBase64\<close> (lines 122--181)\<close>

text \<open>Exceptions of the program, as values.\<close>

datatype error = NoVideoFile | DecodeError | RemoteCallError | TypeError | RangeError

definition and_then :: "error + 'a \<Rightarrow> ('a \<Rightarrow> error + 'b) \<Rightarrow> error + 'b" where
  "and_then r f = (case r of Inl e \<Rightarrow> Inl e | Inr x \<Rightarrow> f x)"

text \<open>
  An \<^verbatim>\<open>AudioBuffer\<close>: \<open>bufferLength\<close> is its \<^verbatim>\<open>length\<close> in frames, and
  \<open>channelData buffer i\<close> is \<^verbatim>\<open>getChannelData(i)\<close>, a \<^verbatim>\<open>Float32Array\<close> of that many
  samples. The sample rate of a decoded buffer is the audio context's rate, a whole
  number of hertz. Reading a typed array past its end gives \<^verbatim>\<open>undefined\<close>, here
  \<open>None\<close>.
\<close>

record AudioBuffer =
  numberOfChannels :: nat
  bufferLength :: nat
  sampleRate :: nat
  channelData :: "nat \<Rightarrow> nat \<Rightarrow> real"

definition getSample :: "AudioBuffer \<Rightarrow> nat \<Rightarrow> nat \<Rightarrow> real option" where
  "getSample buffer i offset =
     (if offset < bufferLength buffer then Some (channelData buffer i offset) else None)"

subsection \<open>The \<^verbatim>\<open>DataView\<close>\<close>

text \<open>
  The view is the list of the bytes of the \<^verbatim>\<open>ArrayBuffer\<close>, and a writer is the view
  with the source's variable \<^verbatim>\<open>pos\<close>. \<open>le_bytes w n\<close> is the little-endian encoding of
  \<open>n\<close> modulo \<open>2 ^ (8 * w)\<close>, which is what \<^verbatim>\<open>setUint16\<close>, \<^verbatim>\<open>setUint32\<close> and \<^verbatim>\<open>setInt16\<close>
  store for an integer argument (negative numbers in two's complement). A write that
  does not fit the buffer throws a \<^verbatim>\<open>RangeError\<close>.
\<close>

type_synonym byte = "8 word"

definition le_bytes :: "nat \<Rightarrow> int \<Rightarrow> byte list" where
  "le_bytes w n = map (\<lambda>k. of_int (n div 256 ^ k)) [0..<w]"

definition set_at :: "nat \<Rightarrow> byte list \<Rightarrow> byte list \<Rightarrow> byte list" where
  "set_at pos bs view = take pos view @ bs @ drop (pos + length bs) view"

type_synonym writer = "byte list \<times> nat"

definition put_bytes :: "byte list \<Rightarrow> writer \<Rightarrow> error + writer" where
  "put_bytes bs w =
     (case w of (view, pos) \<Rightarrow>
        if pos + length bs \<le> length view
        then Inr (set_at pos bs view, pos + length bs)
        else Inl RangeError)"

definition setUint16 :: "int \<Rightarrow> writer \<Rightarrow> error + writer" where
  "setUint16 data w = put_bytes (le_bytes 2 data) w"

definition setUint32 :: "int \<Rightarrow> writer \<Rightarrow> error + writer" where
  "setUint32 data w = put_bytes (le_bytes 4 data) w"

definition setInt16 :: "int \<Rightarrow> writer \<Rightarrow> error + writer" where
  "setInt16 data w = put_bytes (le_bytes 2 data) w"

subsection \<open>The header (lines 133--145)\<close>

definition write_header :: "nat \<Rightarrow> nat \<Rightarrow> nat \<Rightarrow> writer \<Rightarrow> error + writer" where
  "write_header numOfChan len rate w0 =
     and_then (setUint32 0x46464952 w0) (\<lambda>w.
     and_then (setUint32 (int len - 8) w) (\<lambda>w.
     and_then (setUint32 0x45564157 w) (\<lambda>w.
     and_then (setUint32 0x20746d66 w) (\<lambda>w.
     and_then (setUint32 16 w) (\<lambda>w.
     and_then (setUint16 1 w) (\<lambda>w.
     and_then (setUint16 (int numOfChan) w) (\<lambda>w.
     and_then (setUint32 (int rate) w) (\<lambda>w.
     and_then (setUint32 (int rate * 2 * int numOfChan) w) (\<lambda>w.
     and_then (setUint16 (int numOfChan * 2) w) (\<lambda>w.
     and_then (setUint16 16 w) (\<lambda>w.
     and_then (setUint32 0x61746164 w) (\<lambda>w.
     setUint32 (int len - int (snd w) - 4) w))))))))))))"

subsection \<open>Quantisation (lines 163--164)\<close>

text \<open>
  \<open>clamp\<close> is \<^verbatim>\<open>Math.max(-1, Math.min(1, x))\<close>. \<open>scale\<close> is the conditional of line 164
  as JavaScript parses it: \<^verbatim>\<open>+\<close> binds tighter than \<^verbatim>\<open><\<close>, so the test is
  \<^verbatim>\<open>(0.5 + sample) < 0\<close>. \<^verbatim>\<open>| 0\<close> truncates and wraps to 32 bits. An \<^verbatim>\<open>undefined\<close> sample
  becomes \<^verbatim>\<open>NaN\<close> in \<^verbatim>\<open>Math.min\<close> and \<^verbatim>\<open>NaN | 0\<close> is \<open>0\<close>.
\<close>

definition clamp :: "real \<Rightarrow> real" where
  "clamp x = max (- 1) (min 1 x)"

definition scale :: "real \<Rightarrow> real" where
  "scale sample = (if 1 / 2 + sample < 0 then sample * 32768 else sample * 32767)"

definition toInt32 :: "int \<Rightarrow> int" where
  "toInt32 n = (n + 2 ^ 31) mod 2 ^ 32 - 2 ^ 31"

definition pcm16 :: "real \<Rightarrow> int" where
  "pcm16 x = toInt32 (trunc (scale (clamp x)))"

definition pcm16_read :: "real option \<Rightarrow> int" where
  "pcm16_read r = (case r of None \<Rightarrow> 0 | Some x \<Rightarrow> pcm16 x)"

subsection \<open>The sample loop (lines 161--169)\<close>

text \<open>The inner \<^verbatim>\<open>for\<close> loop over the channels \<open>0, \<dots>, numOfChan - 1\<close>.\<close>

fun write_frame :: "AudioBuffer \<Rightarrow> nat \<Rightarrow> nat list \<Rightarrow> writer \<Rightarrow> error + writer" where
  "write_frame buffer offset [] w = Inr w"
| "write_frame buffer offset (i # rest) w =
     and_then (setInt16 (pcm16_read (getSample buffer i offset)) w)
       (write_frame buffer offset rest)"

lemma put_bytes_Inr:
  "put_bytes bs (view, pos) = Inr w' \<Longrightarrow>
     snd w' = pos + length bs \<and> length (fst w') = length view
     \<and> take pos (fst w') = take pos view"
  by (auto simp: put_bytes_def set_at_def split: if_splits)

lemma write_frame_Inr:
  "write_frame buffer offset cs (view, pos) = Inr w' \<Longrightarrow>
     snd w' = pos + 2 * length cs \<and> length (fst w') = length view
     \<and> take pos (fst w') = take pos view"
proof (induction cs arbitrary: view pos)
  case Nil
  then show ?case by auto
next
  case (Cons i cs)
  from Cons.prems obtain v1 p1 where
    a: "setInt16 (pcm16_read (getSample buffer i offset)) (view, pos) = Inr (v1, p1)"
    and b: "write_frame buffer offset cs (v1, p1) = Inr w'"
    by (auto simp: and_then_def split: sum.splits)
  from a have a': "p1 = pos + 2" "length v1 = length view" "take pos v1 = take pos view"
    using put_bytes_Inr [of "le_bytes 2 (pcm16_read (getSample buffer i offset))" view pos "(v1, p1)"]
    by (simp_all add: setInt16_def le_bytes_def)
  from Cons.IH [OF b] have c: "snd w' = p1 + 2 * length cs" "length (fst w') = length v1"
    "take p1 (fst w') = take p1 v1" by simp_all
  have "take pos (fst w') = take pos (take p1 (fst w'))" using a' by (simp add: min_def)
  also have "\<dots> = take pos (take p1 v1)" using c by simp
  also have "\<dots> = take pos v1" using a' by (simp add: min_def)
  finally show ?case using a' c by simp
qed

text \<open>
  The \<^verbatim>\<open>while (pos < length)\<close> loop. With no channel the inner loop writes nothing and
  \<^verbatim>\<open>pos\<close> never moves, so the loop does not return: that is the result \<open>None\<close>.
\<close>

function write_samples ::
  "AudioBuffer \<Rightarrow> nat \<Rightarrow> nat \<Rightarrow> writer \<Rightarrow> (error + byte list) option" where
  "write_samples buffer len offset w =
     (if snd w < len then
        (if numberOfChannels buffer = 0 then None
         else case write_frame buffer offset [0..<numberOfChannels buffer] w of
                Inl e \<Rightarrow> Some (Inl e)
              | Inr w' \<Rightarrow> write_samples buffer len (offset + 1) w')
      else Some (Inr (fst w)))"
  by pat_completeness auto
termination
proof (relation "measure (\<lambda>(buffer, len, offset, w). len - snd w)", goal_cases)
  case 1
  show ?case by simp
next
  case (2 buffer len offset w w')
  then show ?case
    using write_frame_Inr [of buffer offset "[0..<numberOfChannels buffer]" "fst w" "snd w" w']
    by simp
qed

declare write_samples.simps [simp del]

text \<open>
  The function up to the bytes of the \<^verbatim>\<open>ArrayBuffer\<close>. Lines 171 to 180 copy these
  bytes one by one into a binary string and hand it to the platform's \<^verbatim>\<open>btoa\<close>;
  that text encoding is not modelled.
\<close>

definition audioBufferToWav :: "AudioBuffer \<Rightarrow> (error + byte list) option" where
  "audioBufferToWav buffer =
     (let numOfChan = numberOfChannels buffer;
          len = bufferLength buffer * numOfChan * 2 + 44
      in case write_header numOfChan len (sampleRate buffer) (replicate len 0, 0) of
           Inl e \<Rightarrow> Some (Inl e)
         | Inr w \<Rightarrow> write_samples buffer len 0 w)"

subsection \<open>Reading a WAV header back\<close>

text \<open>Little-endian fields of a byte list, and the 44 bytes the header consists of.\<close>

definition u16_at :: "byte list \<Rightarrow> nat \<Rightarrow> nat" where
  "u16_at view p = unat (view ! p) + 256 * unat (view ! (p + 1))"

definition u32_at :: "byte list \<Rightarrow> nat \<Rightarrow> nat" where
  "u32_at view p =
     unat (view ! p) + 256 * unat (view ! (p + 1)) + 65536 * unat (view ! (p + 2))
       + 16777216 * unat (view ! (p + 3))"

definition header_bytes :: "nat \<Rightarrow> nat \<Rightarrow> nat \<Rightarrow> byte list" where
  "header_bytes numOfChan len rate =
     le_bytes 4 0x46464952 @ le_bytes 4 (int len - 8) @ le_bytes 4 0x45564157 @
     le_bytes 4 0x20746d66 @ le_bytes 4 16 @ le_bytes 2 1 @ le_bytes 2 (int numOfChan) @
     le_bytes 4 (int rate) @ le_bytes 4 (int rate * 2 * int numOfChan) @
     le_bytes 2 (int numOfChan * 2) @ le_bytes 2 16 @ le_bytes 4 0x61746164 @
     le_bytes 4 (int len - 44)"

text \<open>A writer that has laid down \<open>pre\<close> at the start of \<open>view0\<close>.\<close>

definition wr :: "byte list \<Rightarrow> byte list \<Rightarrow> writer" where
  "wr view0 pre = (pre @ drop (length pre) view0, length pre)"

definition silent :: "AudioBuffer \<Rightarrow> bool" where
  "silent buffer = (\<forall>i offset. channelData buffer i offset = 0)"

text \<open>A buffer of silence with \<open>c\<close> channels, \<open>n\<close> frames and rate \<open>r\<close>.\<close>

definition silence :: "nat \<Rightarrow> nat \<Rightarrow> nat \<Rightarrow> AudioBuffer" where
  "silence c n r =
     \<lparr>numberOfChannels = c, bufferLength = n, sampleRate = r, channelData = (\<lambda>i offset. 0)\<rparr>"

section \<open>Chunked transcription: \<^verbatim>\<open>transcribeAudio\<close> (lines 186--249)\<close>

subsection \<open>The chunk ranges (lines 201, 204 and 205)\<close>

text \<open>
  The loop \<^verbatim>\<open>for (let i = 0; i < audioDuration; i += CHUNK_SECONDS)\<close> with
  \<^verbatim>\<open>startTime = i\<close> and \<^verbatim>\<open>endTime = Math.min(i + CHUNK_SECONDS, audioDuration)\<close>, taken on
  its own: the ranges it visits when nothing stops it. \<^verbatim>\<open>CHUNK_SECONDS\<close> is 30. The
  duration is that of an \<^verbatim>\<open>AudioBuffer\<close>, a finite non-negative double far below
  \<open>2\<^sup>5\<^sup>3\<close>, so every \<open>i\<close> is an integer the doubles represent exactly.
\<close>

function chunk_ranges :: "real \<Rightarrow> real \<Rightarrow> (real \<times> real) list" where
  "chunk_ranges audioDuration i =
     (if i < audioDuration
      then (i, min (i + 30) audioDuration) # chunk_ranges audioDuration (i + 30)
      else [])"
  by pat_completeness auto
termination
proof (relation "measure (\<lambda>(audioDuration, i). nat \<lceil>audioDuration - i\<rceil>)", goal_cases)
  case 1
  show ?case by simp
next
  case (2 audioDuration i)
  have "\<lceil>audioDuration - (i + 30)\<rceil> = \<lceil>audioDuration - i\<rceil> - 30"
    by (simp add: algebra_simps ceiling_diff_numeral [symmetric])
  moreover have "0 < \<lceil>audioDuration - i\<rceil>" using 2 by simp
  ultimately show ?case by simp
qed

declare chunk_ranges.simps [simp del]

subsection \<open>Text of a response (line 243)\<close>

text \<open>
  \<^verbatim>\<open>trim()\<close> strips the code units ECMAScript counts as white space or line
  terminators from both ends; the \<^verbatim>\<open>replace\<close> that follows turns every line feed into
  a space.
\<close>

definition is_space :: "16 word \<Rightarrow> bool" where
  "is_space c =
     (c \<in> set [0x9, 0xA, 0xB, 0xC, 0xD, 0x20, 0xA0, 0x1680, 0x2028, 0x2029, 0x202F, 0x205F,
                0x3000, 0xFEFF]
      \<or> (0x2000 \<le> c \<and> c \<le> 0x200A))"

definition trim :: "jsstring \<Rightarrow> jsstring" where
  "trim s = rev (dropWhile is_space (rev (dropWhile is_space s)))"

definition replace_newlines :: "jsstring \<Rightarrow> jsstring" where
  "replace_newlines s = map (\<lambda>c. if c = 0xA then 0x20 else c) s"

definition LF :: jsstring where
  "LF = [0xA]"

text \<open>What \<^verbatim>\<open>vttContent\<close> starts as: the header line and a blank line.\<close>

definition vtt_header :: jsstring where
  "vtt_header = ustr ''WEBVTT'' @ LF @ LF"

subsection \<open>The page's state and its surroundings\<close>

text \<open>
  The messages \<^verbatim>\<open>updateStatus\<close> shows, by what they say. \<open>Progress i n\<close> is the progress
  line for chunk \<open>i\<close> of \<open>n\<close>; its estimate of the remaining time depends on the wall
  clock and is left out. \<open>ErrorOccurred\<close> is the message of the \<^verbatim>\<open>catch\<close> block (line
  274), \<open>Cancelled\<close> that of line 278, \<open>Completed\<close> that of line 306, and \<open>NoSubtitles\<close>
  and \<open>ErrorOrCancelled\<close> are the two messages of line 310.
\<close>

datatype status =
    Idle | AiNotInitialised | Starting | Decoding | Progress int int | Cancelling
  | ErrorOccurred | Cancelled | Completed | NoSubtitles | ErrorOrCancelled | NothingToDownload

text \<open>
  A call of \<^verbatim>\<open>ai.models.generateContent\<close> either rejects or resolves to a response whose
  \<^verbatim>\<open>text\<close> is a string or \<^verbatim>\<open>undefined\<close>.
\<close>

datatype response = Rejects | Resolves "jsstring option"

text \<open>
  What a run meets from outside. \<open>localTZA\<close> is the host's offset from UTC in
  milliseconds, which \<^verbatim>\<open>formatTimeVTT\<close> depends on. \<open>decode\<close> is the outcome of reading and decoding the
  file (lines 193 and 194): an error, or the decoded buffer's \<^verbatim>\<open>duration\<close>. \<open>remote n\<close>
  is the outcome of the \<open>n\<close>-th remote call, counted from 1. JavaScript runs one task
  at a time, so the cancel button's handler (lines 350 to 354) can only run while
  \<^verbatim>\<open>transcribeAudio\<close> is suspended at an \<^verbatim>\<open>await\<close>: \<open>click = Some 0\<close> says the button is
  pressed while the file is read and decoded, \<open>click = Some n\<close> while the \<open>n\<close>-th remote
  call is in flight, \<open>click = None\<close> never during the run.
\<close>

record env =
  localTZA :: int
  decode :: "error + real"
  remote :: "nat \<Rightarrow> response"
  click :: "nat option"

text \<open>
  The module's variables, the status line and the subtitle track of the player.
  \<open>currentFile\<close> holds the loaded file's name. \<open>calls\<close> is not a variable of the program:
  it records the chunk range of every remote call made, in order, so that theorems can
  say which calls a run makes.
\<close>

record state =
  ai :: bool
  isGenerationCancelled :: bool
  generatedVttContent :: "jsstring option"
  currentFile :: "jsstring option"
  status :: status
  track :: "jsstring option"
  calls :: "(real \<times> real) list"

text \<open>The cancel button's handler, and an \<^verbatim>\<open>await\<close> during which it may run.\<close>

definition press_cancel :: "state \<Rightarrow> state" where
  "press_cancel s = s\<lparr>isGenerationCancelled := True, status := Cancelling\<rparr>"

definition await :: "env \<Rightarrow> nat \<Rightarrow> state \<Rightarrow> state" where
  "await e n s = (if click e = Some n then press_cancel s else s)"

text \<open>
  The remote call of lines 238 to 241. Lines 219 to 236 cut the chunk's frames out of
  the decoded buffer and encode them; they read no variable the loop tests and throw
  nothing for a chunk of positive length, and the answer comes from \<open>remote\<close> whatever
  the payload is, so the call is recorded by its chunk range.
\<close>

definition generateContent :: "env \<Rightarrow> real \<times> real \<Rightarrow> state \<Rightarrow> response \<times> state" where
  "generateContent e chunk s =
     (let s' = s\<lparr>calls := calls s @ [chunk]\<rparr>;
          n = length (calls s')
      in (remote e n, await e n s'))"

subsection \<open>The loop (lines 201--247)\<close>

text \<open>The text line 245 appends for one cue.\<close>

definition cue_block :: "int \<Rightarrow> real \<Rightarrow> real \<Rightarrow> jsstring \<Rightarrow> jsstring" where
  "cue_block tza startTime endTime subtitleText =
     formatTimeVTT tza startTime @ ustr '' --> '' @ formatTimeVTT tza endTime @ LF @ subtitleText
       @ LF @ LF"

text \<open>
  A rejected call throws; so does \<^verbatim>\<open>response.text.trim()\<close> when the text is
  \<^verbatim>\<open>undefined\<close>. The state travels with the exception, because \<^verbatim>\<open>generateSubtitles\<close>
  reads the cancellation flag after catching it.
\<close>

function chunk_loop ::
  "env \<Rightarrow> real \<Rightarrow> real \<Rightarrow> jsstring \<Rightarrow> state \<Rightarrow> (error + jsstring) \<times> state" where
  "chunk_loop e audioDuration i vttContent s =
     (if i < audioDuration then
        if isGenerationCancelled s then (Inr vttContent, s)
        else
          let startTime = i;
              endTime = min (i + 30) audioDuration;
              currentChunk = \<lfloor>i / 30\<rfloor> + 1;
              s1 = s\<lparr>status := Progress currentChunk \<lceil>audioDuration / 30\<rceil>\<rparr>
          in case generateContent e (startTime, endTime) s1 of
               (Rejects, s2) \<Rightarrow> (Inl RemoteCallError, s2)
             | (Resolves None, s2) \<Rightarrow> (Inl TypeError, s2)
             | (Resolves (Some text), s2) \<Rightarrow>
                 let subtitleText = replace_newlines (trim text)
                 in chunk_loop e audioDuration (i + 30)
                      (if subtitleText \<noteq> []
                       then vttContent @ cue_block (localTZA e) startTime endTime subtitleText
                       else vttContent) s2
      else (Inr vttContent, s))"
  by pat_completeness auto
termination
proof (relation "measure (\<lambda>(e, audioDuration, i, vttContent, s). nat \<lceil>audioDuration - i\<rceil>)",
    goal_cases)
  case 1
  show ?case by simp
next
  case (2 e audioDuration i vttContent s)
  have "\<lceil>audioDuration - (i + 30)\<rceil> = \<lceil>audioDuration - i\<rceil> - 30"
    by (simp add: algebra_simps ceiling_diff_numeral [symmetric])
  moreover have "0 < \<lceil>audioDuration - i\<rceil>" using 2 by simp
  ultimately show ?case by simp
qed

declare chunk_loop.simps [simp del]

definition transcribeAudio :: "env \<Rightarrow> state \<Rightarrow> (error + jsstring) \<times> state" where
  "transcribeAudio e s =
     (case currentFile s of
        None \<Rightarrow> (Inl NoVideoFile, s)
      | Some file \<Rightarrow>
          let s1 = await e 0 (s\<lparr>status := Decoding\<rparr>)
          in case decode e of
               Inl err \<Rightarrow> (Inl err, s1)
             | Inr audioDuration \<Rightarrow> chunk_loop e audioDuration 0 vtt_header s1)"

section \<open>\<^verbatim>\<open>generateSubtitles\<close> (lines 254--315)\<close>

text \<open>
  Line 285: the content is not \<^verbatim>\<open>null\<close>, not the empty string (which is falsy) and
  longer than the header.
\<close>

definition hasSubtitles :: "jsstring option \<Rightarrow> bool" where
  "hasSubtitles vttContent =
     (case vttContent of None \<Rightarrow> False | Some v \<Rightarrow> v \<noteq> [] \<and> length v > length vtt_header)"

text \<open>
  The \<^verbatim>\<open>try\<close> block leaves \<^verbatim>\<open>vttContent\<close> \<^verbatim>\<open>null\<close> when \<^verbatim>\<open>transcribeAudio\<close> throws. The
  cancellation check of lines 277 to 283 comes before the document is looked at. On
  success the document is stored in \<^verbatim>\<open>generatedVttContent\<close> and attached to the player
  as its subtitle track. The buttons the function shows and hides are not modelled.
\<close>

definition generateSubtitles :: "env \<Rightarrow> state \<Rightarrow> state" where
  "generateSubtitles e s =
     (if \<not> ai s then s\<lparr>status := AiNotInitialised\<rparr>
      else
        let s0 = s\<lparr>isGenerationCancelled := False, status := Starting\<rparr>;
            (vttContent, s1) =
               (case transcribeAudio e s0 of
                  (Inr v, s') \<Rightarrow> (Some v, s')
                | (Inl err, s') \<Rightarrow> (None, s'\<lparr>status := ErrorOccurred\<rparr>))
        in if isGenerationCancelled s1 then s1\<lparr>status := Cancelled\<rparr>
           else if hasSubtitles vttContent
           then s1\<lparr>generatedVttContent := vttContent, track := vttContent, status := Completed\<rparr>
           else s1\<lparr>status := (if vttContent \<noteq> None then NoSubtitles else ErrorOrCancelled)\<rparr>)"

section \<open>\<^verbatim>\<open>downloadVttFile\<close> (lines 320--339)\<close>

text \<open>
  \<^verbatim>\<open>lastIndexOf\<close> gives \<open>-1\<close> when the character does not occur. \<open>substring0 s e\<close> is
  \<^verbatim>\<open>s.substring(0, e)\<close>, which clamps \<open>e\<close> to \<open>0 \<dots> length s\<close>. In
  \<^verbatim>\<open>lastIndexOf('.') || originalFileName.length\<close> the right operand is taken only when
  the left one is \<open>0\<close>, the one falsy index. The function's result here is the name
  given to the download, if there is one.
\<close>

definition lastIndexOf :: "jsstring \<Rightarrow> 16 word \<Rightarrow> int" where
  "lastIndexOf s c =
     (if c \<in> set s then int (length s) - 1 - int (length (takeWhile (\<lambda>x. x \<noteq> c) (rev s)))
      else - 1)"

definition substring0 :: "jsstring \<Rightarrow> int \<Rightarrow> jsstring" where
  "substring0 s e = take (nat (max 0 (min e (int (length s))))) s"

definition downloadVttFile :: "state \<Rightarrow> state \<times> jsstring option" where
  "downloadVttFile s =
     (if generatedVttContent s = None \<or> generatedVttContent s = Some []
      then (s\<lparr>status := NothingToDownload\<rparr>, None)
      else
        let originalFileName = (case currentFile s of Some name \<Rightarrow> name | None \<Rightarrow> ustr ''video'');
            dot = lastIndexOf originalFileName (of_char CHR ''.'');
            baseName = substring0 originalFileName
                         (if dot \<noteq> 0 then dot else int (length originalFileName))
        in (s, Some (baseName @ ustr ''.vtt'')))"

section \<open>Notions the statements use\<close>

text \<open>
  The caption assembler as the specification words it: a cue is a start, an end and a
  text, and \<open>toDocumentText\<close> renders a header line followed, for each cue, by a
  timestamp line and the cue text, the blocks separated by blank lines. It is written
  from those words, to be compared with the string the loop builds; the timestamps are
  the program's, so it takes the host's offset as well.
\<close>

type_synonym cue = "real \<times> real \<times> jsstring"

definition render_cue :: "int \<Rightarrow> cue \<Rightarrow> jsstring" where
  "render_cue tza c = (case c of (startSeconds, endSeconds, text) \<Rightarrow>
     formatTimeVTT tza startSeconds @ ustr '' --> '' @ formatTimeVTT tza endSeconds @ LF @ text
       @ LF @ LF)"

definition toDocumentText :: "int \<Rightarrow> cue list \<Rightarrow> jsstring" where
  "toDocumentText tza cues = ustr ''WEBVTT'' @ LF @ LF @ concat (map (render_cue tza) cues)"

text \<open>
  The cues of the chunks \<open>rs\<close> when they are sent as calls \<open>c + 1, c + 2, \<dots>\<close>: one
  for each chunk whose response has a text that is not empty after trimming.
\<close>

fun cues_of :: "env \<Rightarrow> nat \<Rightarrow> (real \<times> real) list \<Rightarrow> cue list" where
  "cues_of e c [] = []"
| "cues_of e c (r # rs) =
     (case remote e (Suc c) of
        Resolves (Some text) \<Rightarrow>
          (if replace_newlines (trim text) \<noteq> []
           then [(fst r, snd r, replace_newlines (trim text))] else [])
      | _ \<Rightarrow> []) @ cues_of e (Suc c) rs"

definition blocks :: "env \<Rightarrow> nat \<Rightarrow> (real \<times> real) list \<Rightarrow> jsstring" where
  "blocks e c rs = concat (map (render_cue (localTZA e)) (cues_of e c rs))"

text \<open>The state after the remote call for the chunk that starts at \<open>i\<close>.\<close>

definition after_call :: "env \<Rightarrow> real \<Rightarrow> real \<Rightarrow> state \<Rightarrow> state" where
  "after_call e D i s =
     snd (generateContent e (i, min (i + 30) D)
            (s\<lparr>status := Progress (\<lfloor>i / 30\<rfloor> + 1) \<lceil>D / 30\<rceil>\<rparr>))"

text \<open>Two states that agree on everything a run can hand to the user.\<close>

definition same_outputs :: "state \<Rightarrow> state \<Rightarrow> bool" where
  "same_outputs s' s =
     (generatedVttContent s' = generatedVttContent s \<and> track s' = track s
      \<and> ai s' = ai s \<and> currentFile s' = currentFile s)"

text \<open>The shape \<^verbatim>\<open>HH:MM:SS.mmm\<close>: twelve characters, digits around two colons and a dot.\<close>

definition is_digit :: "16 word \<Rightarrow> bool" where
  "is_digit c = (0x30 \<le> c \<and> c \<le> 0x39)"

definition timestamp :: "jsstring \<Rightarrow> bool" where
  "timestamp ts =
     (length ts = 12 \<and> list_all (\<lambda>i. is_digit (ts ! i)) [0, 1, 3, 4, 6, 7, 9, 10, 11]
      \<and> ts ! 2 = of_char CHR '':'' \<and> ts ! 5 = of_char CHR '':'' \<and> ts ! 8 = of_char CHR ''.'')"

subsection \<open>Example inputs\<close>

text \<open>
  A remote capability that answers every call with the text \<^verbatim>\<open>a\<close>, and one whose
  \<open>k\<close>-th call rejects, both on a host in the zone Asia/Tokyo (nine hours ahead of
  UTC); the first again on a host in the zone Africa/Monrovia; a page with a file
  loaded and nothing generated yet; a page holding generated captions for a file of a
  given name.
\<close>

definition echo_env :: "real \<Rightarrow> nat option \<Rightarrow> env" where
  "echo_env D c =
     \<lparr>localTZA = 32400000, decode = Inr D, remote = (\<lambda>n. Resolves (Some (ustr ''a''))),
      click = c\<rparr>"

definition monrovia_env :: "real \<Rightarrow> env" where
  "monrovia_env D =
     \<lparr>localTZA = - 2670000, decode = Inr D, remote = (\<lambda>n. Resolves (Some (ustr ''a''))),
      click = None\<rparr>"

definition failing_env :: "real \<Rightarrow> nat \<Rightarrow> nat option \<Rightarrow> env" where
  "failing_env D k c =
     \<lparr>localTZA = 32400000, decode = Inr D,
      remote = (\<lambda>n. if n = k then Rejects else Resolves (Some (ustr ''a''))),
      click = c\<rparr>"

definition loaded :: state where
  "loaded = \<lparr>ai = True, isGenerationCancelled = False, generatedVttContent = None,
     currentFile = Some (ustr ''clip.mp4''), status = Idle, track = None, calls = []\<rparr>"

definition captioned :: "jsstring \<Rightarrow> state" where
  "captioned name = loaded\<lparr>currentFile := Some name,
     generatedVttContent := Some (toDocumentText 32400000 [(0, 30, ustr ''a'')])\<rparr>"

section \<open>Properties of the time formatting\<close>

lemma radix_time:
  fixes t q1 q2 q3 q4 r0 r1 r2 r3 :: int
  shows "t = q1 * 1000 + r0 \<Longrightarrow> q1 = q2 * 60 + r1 \<Longrightarrow> q2 = q3 * 60 + r2 \<Longrightarrow> q3 = q4 * 24 + r3 \<Longrightarrow>
     q4 * 86400000 + r3 * 3600000 + r2 * 60000 + r1 * 1000 + r0 = t"
  by simp

lemma time_fields:
  "Day t * msPerDay + HourFromTime t * msPerHour + MinFromTime t * msPerMinute
     + SecFromTime t * msPerSecond + msFromTime t = t"
proof -
  have d: "t div 1000 div 60 = t div 60000" "t div 60000 div 60 = t div 3600000"
    "t div 3600000 div 24 = t div 86400000"
    by (simp_all add: zdiv_zmult2_eq [symmetric])
  have s0: "t = t div 1000 * 1000 + t mod 1000" by simp
  have s1: "t div 1000 = t div 60000 * 60 + t div 1000 mod 60"
    using div_mult_mod_eq [of "t div 1000" 60] by (simp only: d)
  have s2: "t div 60000 = t div 3600000 * 60 + t div 60000 mod 60"
    using div_mult_mod_eq [of "t div 60000" 60] by (simp only: d)
  have s3: "t div 3600000 = t div 86400000 * 24 + t div 3600000 mod 24"
    using div_mult_mod_eq [of "t div 3600000" 24] by (simp only: d)
  show ?thesis
    unfolding Day_def HourFromTime_def MinFromTime_def SecFromTime_def msFromTime_def
      msPerDay_def msPerHour_def msPerMinute_def msPerSecond_def
    by (rule radix_time [OF s0 s1 s2 s3])
qed

text \<open>
  What \<^verbatim>\<open>setSeconds\<close> makes of the epoch: the seconds asked for, less the seconds field
  of the host's offset, which the call overwrites in local time.
\<close>

lemma setSeconds_epoch: "setSeconds tza 0 s = (trunc s - SecFromTime tza) * 1000"
proof -
  have "Day tza * msPerDay + HourFromTime tza * msPerHour + MinFromTime tza * msPerMinute
      + msFromTime tza = tza - SecFromTime tza * msPerSecond"
    using time_fields [of tza] by simp
  then show ?thesis
    by (simp add: setSeconds_def LocalTime_def UTC_def MakeDate_def MakeTime_def Let_def
        msPerSecond_def algebra_simps)
qed

lemma SecFromTime_whole_minutes: "tza mod 60000 = 0 \<Longrightarrow> SecFromTime tza = 0"
proof -
  assume "tza mod 60000 = 0"
  then have "60000 dvd tza" by (simp add: mod_eq_0_iff_dvd)
  then obtain q where "tza = 60000 * q" by (rule dvdE)
  then have "tza div 1000 = 60 * q" by simp
  then show ?thesis by (simp add: SecFromTime_def msPerSecond_def)
qed

lemma trunc_nonneg: "0 \<le> s \<Longrightarrow> trunc s = \<lfloor>s\<rfloor>"
  by (simp add: trunc_def)

lemma isoTimeOfDay_seconds:
  assumes "0 \<le> n" "n < 86400"
  shows "isoTimeOfDay (n * 1000) =
     dec2 (n div 3600) @ ustr '':'' @ dec2 (n div 60 mod 60) @ ustr '':'' @
     dec2 (n mod 60) @ ustr ''.000''"
proof -
  have h: "HourFromTime (n * 1000) = n div 3600"
  proof -
    have "n * 1000 div 3600000 = n div 3600" by simp
    moreover have "n div 3600 < 24" using assms by simp
    moreover have "0 \<le> n div 3600" using assms by simp
    ultimately show ?thesis by (simp add: HourFromTime_def msPerHour_def)
  qed
  have m: "MinFromTime (n * 1000) = n div 60 mod 60"
  proof -
    have "n * 1000 div 60000 = n div 60" by simp
    then show ?thesis by (simp add: MinFromTime_def msPerMinute_def)
  qed
  have s: "SecFromTime (n * 1000) = n mod 60"
    by (simp add: SecFromTime_def msPerSecond_def)
  have ms: "msFromTime (n * 1000) = 0"
    by (simp add: msFromTime_def msPerSecond_def)
  show ?thesis
    unfolding isoTimeOfDay_def h m s ms
    by (simp add: dec3_def digit_def ustr_def)
qed

text \<open>
  On a host whose offset is a whole number of minutes: for \<open>0 \<le> s < 86400\<close> the fraction
  of \<open>s\<close> is dropped before formatting, \<^verbatim>\<open>formatTimeVTT(s)\<close> is the rendering of \<open>\<lfloor>s\<rfloor>\<close> as
  hours, minutes and seconds, it equals \<^verbatim>\<open>formatTimeVTT(floor(s))\<close>, and its millisecond
  field is \<^verbatim>\<open>000\<close>.
\<close>

lemma formatTimeVTT_truncates:
  assumes "tza mod 60000 = 0" and "0 \<le> s" and "s < 86400"
  shows "formatTimeVTT tza s =
           dec2 (\<lfloor>s\<rfloor> div 3600) @ ustr '':'' @ dec2 (\<lfloor>s\<rfloor> div 60 mod 60) @ ustr '':'' @
           dec2 (\<lfloor>s\<rfloor> mod 60) @ ustr ''.000''
         \<and> formatTimeVTT tza s = formatTimeVTT tza (of_int \<lfloor>s\<rfloor>)
         \<and> drop 9 (formatTimeVTT tza s) = ustr ''000''"
proof -
  have z: "SecFromTime tza = 0" using assms(1) by (rule SecFromTime_whole_minutes)
  have n0: "0 \<le> \<lfloor>s\<rfloor>" using assms by simp
  have n1: "\<lfloor>s\<rfloor> < 86400" using assms by (simp add: floor_less_iff)
  have a: "formatTimeVTT tza s = isoTimeOfDay (\<lfloor>s\<rfloor> * 1000)"
    using assms by (simp add: formatTimeVTT_def setSeconds_epoch z trunc_nonneg)
  have b: "formatTimeVTT tza (of_int \<lfloor>s\<rfloor>) = isoTimeOfDay (\<lfloor>s\<rfloor> * 1000)"
    using n0 by (simp add: formatTimeVTT_def setSeconds_epoch z trunc_def)
  have c: "isoTimeOfDay (\<lfloor>s\<rfloor> * 1000) =
      dec2 (\<lfloor>s\<rfloor> div 3600) @ ustr '':'' @ dec2 (\<lfloor>s\<rfloor> div 60 mod 60) @ ustr '':'' @
      dec2 (\<lfloor>s\<rfloor> mod 60) @ ustr ''.000''"
    by (rule isoTimeOfDay_seconds [OF n0 n1])
  have d: "drop 9 (isoTimeOfDay (\<lfloor>s\<rfloor> * 1000)) = ustr ''000''"
    unfolding c by (simp add: dec2_def ustr_def)
  show ?thesis using a b c d by simp
qed

text \<open>On every host the fraction is dropped and the millisecond field is \<^verbatim>\<open>000\<close>.\<close>

lemma trunc_of_int [simp]: "trunc (of_int k) = k"
  by (simp add: trunc_def)

lemma formatTimeVTT_drops_fraction:
  "formatTimeVTT tza s = formatTimeVTT tza (of_int (trunc s))
   \<and> drop 9 (formatTimeVTT tza s) = ustr ''000''"
proof -
  have "msFromTime ((trunc s - SecFromTime tza) * 1000) = 0"
    by (simp add: msFromTime_def msPerSecond_def)
  then have "drop 9 (formatTimeVTT tza s) = ustr ''000''"
    by (simp add: formatTimeVTT_def setSeconds_epoch isoTimeOfDay_def dec2_def dec3_def
        digit_def ustr_def)
  then show ?thesis by (simp add: formatTimeVTT_def setSeconds_epoch)
qed

text \<open>
  C10. On a host in the zone Africa/Monrovia, whose offset at the epoch is minus 44
  minutes and 30 seconds, local time at the epoch reads 23:15:30; \<^verbatim>\<open>setSeconds\<close>
  overwrites those 30 seconds, and the UTC time printed is 30 seconds early:
  \<^verbatim>\<open>formatTimeVTT(65.9)\<close> is \<^verbatim>\<open>00:00:35.000\<close> and \<^verbatim>\<open>formatTimeVTT(0)\<close> is \<^verbatim>\<open>23:59:30.000\<close>,
  where rendering \<open>\<lfloor>s\<rfloor>\<close> gives \<^verbatim>\<open>00:01:05.000\<close> and \<^verbatim>\<open>00:00:00.000\<close>. Hosts whose offset is a
  whole number of minutes (UTC, Asia/Tokyo) give the latter.
\<close>

theorem formatTimeVTT_monrovia_host:
  "formatTimeVTT (- 2670000) (659 / 10) = ustr ''00:00:35.000''
   \<and> formatTimeVTT (- 2670000) 0 = ustr ''23:59:30.000''
   \<and> formatTimeVTT 0 (659 / 10) = ustr ''00:01:05.000''
   \<and> formatTimeVTT 32400000 (659 / 10) = ustr ''00:01:05.000''"
  by (simp add: formatTimeVTT_def setSeconds_epoch SecFromTime_def isoTimeOfDay_def
      HourFromTime_def MinFromTime_def msFromTime_def msPerHour_def msPerMinute_def
      msPerSecond_def trunc_def dec2_def dec3_def digit_def ustr_def)

text \<open>
  C7. \<^verbatim>\<open>formatRemainingTime\<close> returns \<^verbatim>\<open>--:--\<close> for \<^verbatim>\<open>NaN\<close>, for both infinities and for
  every negative number, in particular for \<open>-5\<close>; it returns \<^verbatim>\<open>02:05\<close> for \<open>125\<close>.
\<close>

theorem formatRemainingTime_placeholder:
  "formatRemainingTime NaN = ustr ''--:--''
   \<and> formatRemainingTime PosInf = ustr ''--:--''
   \<and> formatRemainingTime NegInf = ustr ''--:--''
   \<and> (\<forall>x. x < 0 \<longrightarrow> formatRemainingTime (Fin x) = ustr ''--:--'')
   \<and> formatRemainingTime (Fin 125) = ustr ''02:05''"
proof -
  have "\<lfloor>(125::real) / 60\<rfloor> = 2" by simp
  moreover have "js_rem 125 60 = 5" by (simp add: js_rem_def trunc_def)
  moreover have "digits 2 = [digit 2]" "digits 5 = [digit 5]"
    by (simp_all add: digits.simps [of 2] digits.simps [of 5])
  ultimately have "formatRemainingTime (Fin 125) = ustr ''02:05''"
    by (simp add: formatRemainingTime_def Math_round_def String_of_int_def padStart0_def
        digit_def ustr_def)
  then show ?thesis by (simp add: formatRemainingTime_def)
qed

theorem formatRemainingTime_placeholder_witness:
  "(- 5 :: real) < 0 \<and> formatRemainingTime (Fin (- 5)) = ustr ''--:--''"
  using formatRemainingTime_placeholder by simp

section \<open>Properties of the WAV encoding\<close>

lemma length_le_bytes [simp]: "length (le_bytes w n) = w"
  by (simp add: le_bytes_def)

lemma length_set_at [simp]:
  "pos + length bs \<le> length view \<Longrightarrow> length (set_at pos bs view) = length view"
  by (simp add: set_at_def)

lemma put_bytes_ok:
  "pos + length bs \<le> length view \<Longrightarrow>
     put_bytes bs (view, pos) = Inr (set_at pos bs view, pos + length bs)"
  by (simp add: put_bytes_def)

lemma and_then_Inr [simp]: "and_then (Inr x) f = f x"
  by (simp add: and_then_def)

lemma and_then_Inl [simp]: "and_then (Inl e) f = Inl e"
  by (simp add: and_then_def)

lemma wr_Nil: "wr view [] = (view, 0)"
  by (simp add: wr_def)

lemma snd_wr [simp]: "snd (wr view0 pre) = length pre"
  by (simp add: wr_def)

lemma put_bytes_wr:
  "length pre + length bs \<le> length view0 \<Longrightarrow>
     put_bytes bs (wr view0 pre) = Inr (wr view0 (pre @ bs))"
  by (simp add: wr_def put_bytes_def set_at_def add.commute)

lemma length_header_bytes [simp]: "length (header_bytes numOfChan len rate) = 44"
  by (simp add: header_bytes_def)

lemma write_header_ok:
  assumes "44 \<le> length view"
  shows "write_header numOfChan len rate (view, 0) =
           Inr (header_bytes numOfChan len rate @ drop 44 view, 44)"
proof -
  have "write_header numOfChan len rate (wr view []) = Inr (wr view (header_bytes numOfChan len rate))"
    using assms
    by (simp add: write_header_def setUint32_def setUint16_def put_bytes_wr header_bytes_def)
  then show ?thesis
    by (simp add: wr_Nil) (simp add: wr_def)
qed

lemma le_bytes_2: "le_bytes 2 n = [of_int n, of_int (n div 256)]"
  by (simp add: le_bytes_def numeral_2_eq_2)

lemma le_bytes_4:
  "le_bytes 4 n = [of_int n, of_int (n div 256), of_int (n div 65536), of_int (n div 16777216)]"
proof -
  have "[0..<4] = [0, 1, 2, 3::nat]" by (simp add: upt_rec)
  then show ?thesis by (simp add: le_bytes_def)
qed

lemma header_bytes_nth:
  shows "header_bytes numOfChan len rate ! 22 = of_int (int numOfChan)"
    and "header_bytes numOfChan len rate ! 23 = of_int (int numOfChan div 256)"
    and "header_bytes numOfChan len rate ! 24 = of_int (int rate)"
    and "header_bytes numOfChan len rate ! 25 = of_int (int rate div 256)"
    and "header_bytes numOfChan len rate ! 26 = of_int (int rate div 65536)"
    and "header_bytes numOfChan len rate ! 27 = of_int (int rate div 16777216)"
    and "header_bytes numOfChan len rate ! 34 = 16"
    and "header_bytes numOfChan len rate ! 35 = 0"
  by (simp_all add: header_bytes_def le_bytes_2 le_bytes_4)

lemma pcm16_zero: "pcm16 0 = 0"
  by (simp add: pcm16_def toInt32_def trunc_def scale_def clamp_def)

lemma pcm16_read_silent: "silent buffer \<Longrightarrow> pcm16_read (getSample buffer i offset) = 0"
  by (simp add: silent_def pcm16_read_def getSample_def pcm16_zero)

lemma set_at_same:
  assumes "pos + length bs \<le> length view" and "take (length bs) (drop pos view) = bs"
  shows "set_at pos bs view = view"
proof -
  have "bs @ drop (length bs) (drop pos view) = drop pos view"
    by (metis append_take_drop_id assms(2))
  then have "bs @ drop (pos + length bs) view = drop pos view"
    by (simp add: add.commute)
  then show ?thesis by (simp add: set_at_def)
qed

lemma zero_tail_window:
  assumes "drop 44 view = replicate (length view - 44) 0" and "44 \<le> pos"
    and "pos + 2 \<le> length view"
  shows "take 2 (drop pos view) = [0, 0]"
proof -
  have "drop pos view = drop (pos - 44) (drop 44 view)" using assms(2) by simp
  also have "\<dots> = replicate (length view - pos) 0" using assms by simp
  finally have "take 2 (drop pos view) = replicate (min 2 (length view - pos)) 0" by simp
  moreover have "min 2 (length view - pos) = 2" using assms(3) by simp
  ultimately show ?thesis by (simp add: numeral_2_eq_2)
qed

lemma write_frame_silent:
  assumes "silent buffer" and "drop 44 view = replicate (length view - 44) 0"
  shows "44 \<le> pos \<Longrightarrow> pos + 2 * length cs \<le> length view \<Longrightarrow>
           write_frame buffer offset cs (view, pos) = Inr (view, pos + 2 * length cs)"
proof (induction cs arbitrary: pos)
  case Nil
  then show ?case by simp
next
  case (Cons i cs)
  have w: "take 2 (drop pos view) = [0, 0]"
    using zero_tail_window [OF assms(2)] Cons.prems by simp
  have lb: "le_bytes 2 0 = [0, 0]" by (simp add: le_bytes_2)
  have "take (length (le_bytes 2 0)) (drop pos view) = le_bytes 2 0"
    unfolding length_le_bytes unfolding lb by (rule w)
  then have "set_at pos (le_bytes 2 0) view = view"
    using Cons.prems by (intro set_at_same) simp_all
  then have "setInt16 (pcm16_read (getSample buffer i offset)) (view, pos) = Inr (view, pos + 2)"
    using Cons.prems assms(1) by (simp add: setInt16_def pcm16_read_silent put_bytes_ok)
  moreover have "write_frame buffer offset cs (view, pos + 2) = Inr (view, pos + 2 + 2 * length cs)"
    using Cons.prems by (intro Cons.IH) simp_all
  ultimately show ?case by simp
qed

lemma write_samples_silent:
  assumes "silent buffer" and "drop 44 view = replicate (length view - 44) 0"
    and "0 < numberOfChannels buffer"
  shows "44 \<le> pos \<Longrightarrow> pos + 2 * numberOfChannels buffer * k = length view \<Longrightarrow>
           write_samples buffer (length view) offset (view, pos) = Some (Inr view)"
proof (induction k arbitrary: pos offset)
  case 0
  then show ?case by (simp add: write_samples.simps)
next
  case (Suc k)
  let ?c = "numberOfChannels buffer"
  have lt: "pos < length view" using Suc.prems assms(3) by simp
  have fr: "write_frame buffer offset [0..<?c] (view, pos) = Inr (view, pos + 2 * ?c)"
    using write_frame_silent [OF assms(1,2), of pos "[0..<?c]" offset] Suc.prems by simp
  have "write_samples buffer (length view) (offset + 1) (view, pos + 2 * ?c) = Some (Inr view)"
    using Suc.prems by (intro Suc.IH) simp_all
  then show ?case
    using lt fr assms(3) by (subst write_samples.simps) simp
qed

lemma unat_byte_of_nat: "unat (of_int (int k) :: byte) = k mod 256"
  by (simp add: unat_of_nat)

lemma u16_at_le:
  assumes "n < 65536"
  shows "unat (of_int (int n) :: byte) + 256 * unat (of_int (int n div 256) :: byte) = n"
proof -
  have "(of_int (int n div 256) :: byte) = of_int (int (n div 256))"
    by (simp add: zdiv_int)
  moreover have "n div 256 < 256" using assms by simp
  ultimately show ?thesis
    by (simp only: unat_byte_of_nat) simp
qed

lemma radix_sum:
  fixes n x0 x1 x2 a b c :: nat
  shows "n = x0 + 256 * a \<Longrightarrow> a = x1 + 256 * b \<Longrightarrow> b = x2 + 256 * c \<Longrightarrow>
     x0 + 256 * x1 + 65536 * x2 + 16777216 * c = n"
  by simp

lemma radix_256:
  fixes n :: nat
  assumes "n < 4294967296"
  shows "n mod 256 + 256 * (n div 256 mod 256) + 65536 * (n div 65536 mod 256)
           + 16777216 * (n div 16777216 mod 256) = n"
proof -
  have d: "n div 256 div 256 = n div 65536" "n div 65536 div 256 = n div 16777216"
    by (simp_all add: div_mult2_eq [symmetric])
  have "n div 16777216 < 256" using assms by simp
  then have e: "n div 16777216 mod 256 = n div 16777216" by simp
  have s1: "n = n mod 256 + 256 * (n div 256)" by simp
  have s2: "n div 256 = n div 256 mod 256 + 256 * (n div 65536)"
    using mod_mult_div_eq [of "n div 256" 256] by (simp only: d)
  have s3: "n div 65536 = n div 65536 mod 256 + 256 * (n div 16777216)"
    using mod_mult_div_eq [of "n div 65536" 256] by (simp only: d)
  show ?thesis unfolding e by (rule radix_sum [OF s1 s2 s3])
qed

lemma u32_at_le:
  assumes "n < 4294967296"
  shows "unat (of_int (int n) :: byte) + 256 * unat (of_int (int n div 256) :: byte)
           + 65536 * unat (of_int (int n div 65536) :: byte)
           + 16777216 * unat (of_int (int n div 16777216) :: byte) = n"
proof -
  have "(of_int (int n div 256) :: byte) = of_int (int (n div 256))"
    "(of_int (int n div 65536) :: byte) = of_int (int (n div 65536))"
    "(of_int (int n div 16777216) :: byte) = of_int (int (n div 16777216))"
    by (simp_all add: zdiv_int)
  then show ?thesis
    using radix_256 [OF assms] by (simp only: unat_byte_of_nat)
qed

text \<open>
  C5. For a buffer of silence with \<open>N\<close> frames, \<open>C\<close> channels and rate \<open>R\<close> (a channel
  count that fits the header's 16-bit field and a rate that fits its 32-bit field, as
  every audio buffer has), the encoder returns a payload of exactly \<open>44 + N * C * 2\<close>
  bytes; the header records \<open>C\<close> at offset 22, \<open>R\<close> at offset 24 and 16 bits per
  sample at offset 34, and every data byte is zero.
\<close>

theorem wav_silence_payload:
  assumes "silent buffer"
    and "numberOfChannels buffer < 65536" and "sampleRate buffer < 4294967296"
  shows "\<exists>bytes. audioBufferToWav buffer = Some (Inr bytes)
           \<and> length bytes = 44 + bufferLength buffer * numberOfChannels buffer * 2
           \<and> u16_at bytes 22 = numberOfChannels buffer
           \<and> u32_at bytes 24 = sampleRate buffer
           \<and> u16_at bytes 34 = 16
           \<and> drop 44 bytes = replicate (bufferLength buffer * numberOfChannels buffer * 2) 0"
proof -
  let ?c = "numberOfChannels buffer"
  let ?n = "bufferLength buffer"
  let ?len = "?n * ?c * 2 + 44"
  let ?h = "header_bytes ?c ?len (sampleRate buffer)"
  let ?view = "?h @ drop 44 (replicate ?len (0::byte))"
  have hdr: "write_header ?c ?len (sampleRate buffer) (replicate ?len 0, 0) = Inr (?view, 44)"
    by (rule write_header_ok) simp
  have len: "length ?view = ?len" by simp
  have tail: "drop 44 ?view = replicate (length ?view - 44) 0" by simp
  have run: "write_samples buffer (length ?view) 0 (?view, 44) = Some (Inr ?view)"
  proof (cases "?c = 0")
    case True
    then show ?thesis by (simp add: write_samples.simps)
  next
    case False
    then have "0 < ?c" by simp
    moreover have "44 + 2 * ?c * ?n = length ?view" by simp
    ultimately show ?thesis
      using write_samples_silent [OF assms(1) tail, of 44 ?n 0] by simp
  qed
  have res: "audioBufferToWav buffer = Some (Inr ?view)"
    using hdr run unfolding len by (simp add: audioBufferToWav_def Let_def)
  have f1: "u16_at ?view 22 = ?c"
    using u16_at_le [OF assms(2)] by (simp add: u16_at_def nth_append header_bytes_nth)
  have f2: "u32_at ?view 24 = sampleRate buffer"
    using u32_at_le [OF assms(3)] by (simp add: u32_at_def nth_append header_bytes_nth)
  have f3: "u16_at ?view 34 = 16"
    by (simp add: u16_at_def nth_append header_bytes_nth)
  show ?thesis using res f1 f2 f3 by simp
qed

theorem wav_silence_payload_witness:
  "silent (silence 2 3 44100) \<and> numberOfChannels (silence 2 3 44100) < 65536
   \<and> sampleRate (silence 2 3 44100) < 4294967296
   \<and> (\<exists>bytes. audioBufferToWav (silence 2 3 44100) = Some (Inr bytes) \<and> length bytes = 56
        \<and> u16_at bytes 22 = 2 \<and> u32_at bytes 24 = 44100 \<and> u16_at bytes 34 = 16)"
  using wav_silence_payload [of "silence 2 3 44100"]
  by (auto simp add: silence_def silent_def)

subsection \<open>Quantisation\<close>

lemma toInt32_id: "- 2147483648 \<le> n \<Longrightarrow> n < 2147483648 \<Longrightarrow> toInt32 n = n"
  by (simp add: toInt32_def)

lemma clamp_range: "- 1 \<le> clamp x \<and> clamp x \<le> 1"
  by (simp add: clamp_def)

lemma clamp_idem: "clamp (clamp x) = clamp x"
  by (simp add: clamp_def)

lemma trunc_bounds:
  assumes "- 32768 \<le> y" and "y \<le> 32768"
  shows "- 32768 \<le> trunc y \<and> trunc y \<le> 32768"
proof -
  have "\<lceil>y\<rceil> \<le> 32768" using assms(2) by (simp add: ceiling_le_iff)
  moreover have "- 32768 \<le> \<lfloor>y\<rfloor>" using assms(1) by (simp add: le_floor_iff)
  moreover have "\<lfloor>y\<rfloor> \<le> \<lceil>y\<rceil>" by (rule floor_le_ceiling)
  ultimately show ?thesis by (auto simp: trunc_def)
qed

lemma scale_bounds: "- 1 \<le> s \<Longrightarrow> s \<le> 1 \<Longrightarrow> - 32768 \<le> scale s \<and> scale s \<le> 32768"
  by (auto simp: scale_def)

lemma pcm16_trunc: "pcm16 x = trunc (scale (clamp x))"
proof -
  have "- 32768 \<le> scale (clamp x) \<and> scale (clamp x) \<le> 32768"
    using clamp_range [of x] by (intro scale_bounds) simp_all
  then have "- 32768 \<le> trunc (scale (clamp x)) \<and> trunc (scale (clamp x)) \<le> 32768"
    by (intro trunc_bounds) simp_all
  then show ?thesis by (simp add: pcm16_def toInt32_id)
qed

lemma pcm16_clamped: "pcm16 x = pcm16 (clamp x)"
  by (simp add: pcm16_def clamp_idem)

lemma pcm16_nonneg: "0 \<le> clamp x \<Longrightarrow> pcm16 x = trunc (clamp x * 32767)"
  by (simp add: pcm16_trunc scale_def)

lemma pcm16_below_minus_half: "clamp x < - 1 / 2 \<Longrightarrow> pcm16 x = trunc (clamp x * 32768)"
  by (simp add: pcm16_trunc scale_def)

lemma pcm16_small_negative:
  "- 1 / 2 \<le> clamp x \<Longrightarrow> clamp x < 0 \<Longrightarrow> pcm16 x = trunc (clamp x * 32767)"
  by (simp add: pcm16_trunc scale_def)

lemma pcm16_boundaries: "pcm16 1 = 32767 \<and> pcm16 (- 1) = - 32768 \<and> pcm16 (3 / 2) = pcm16 1"
  by (simp add: pcm16_def toInt32_def trunc_def scale_def clamp_def)

text \<open>
  C2. Every sample is clamped to \<open>[-1, 1]\<close> first (\<open>pcm16_clamped\<close>), a non-negative
  sample is scaled by \<open>32767\<close> (\<open>pcm16_nonneg\<close>), and \<open>1.0\<close>, \<open>-1.0\<close> and \<open>1.5\<close> encode as
  the claim says (\<open>pcm16_boundaries\<close>). A negative sample is scaled by \<open>32768\<close> only
  below \<open>-0.5\<close> (\<open>pcm16_below_minus_half\<close>); from \<open>-0.5\<close> up to \<open>0\<close> the code scales by
  \<open>32767\<close> (\<open>pcm16_small_negative\<close>), because the \<open>0.5\<close> of line 164 is added inside
  the comparison. At \<open>-0.25\<close> the code writes \<open>-8191\<close>, where scaling by \<open>32768\<close> gives
  \<open>-8192\<close>.
\<close>

theorem pcm16_quarter_scaled_by_32767:
  "clamp (- 1 / 4) = - 1 / 4 \<and> pcm16 (- 1 / 4) = - 8191
   \<and> trunc (clamp (- 1 / 4) * 32767) = - 8191
   \<and> trunc (clamp (- 1 / 4) * 32768) = - 8192"
  by (simp add: pcm16_def toInt32_def trunc_def scale_def clamp_def)

section \<open>Properties of the chunk ranges\<close>

lemma chunk_ranges_closed:
  "chunk_ranges D i =
     map (\<lambda>k. (i + 30 * real k, min (i + 30 * real (Suc k)) D)) [0..<nat \<lceil>(D - i) / 30\<rceil>]"
proof (induction "nat \<lceil>(D - i) / 30\<rceil>" arbitrary: i)
  case 0
  then have "\<lceil>(D - i) / 30\<rceil> \<le> 0" by simp
  then have "(D - i) / 30 \<le> 0" by (simp add: ceiling_le_iff)
  then have "\<not> i < D" by simp
  then show ?case using 0 by (simp add: chunk_ranges.simps)
next
  case (Suc n)
  have "0 < nat \<lceil>(D - i) / 30\<rceil>" by (metis Suc(2) zero_less_Suc)
  then have "0 < (D - i) / 30" by simp
  then have lt: "i < D" by simp
  have e: "(D - (i + 30)) / 30 = (D - i) / 30 - 1" by (simp add: field_simps)
  have "\<lceil>(D - (i + 30)) / 30\<rceil> = \<lceil>(D - i) / 30\<rceil> - 1"
    unfolding e by (rule ceiling_diff_one)
  then have n: "n = nat \<lceil>(D - (i + 30)) / 30\<rceil>" using Suc(2) by simp
  have up: "[0..<Suc n] = 0 # map Suc [0..<n]"
    by (metis map_Suc_upt upt_conv_Cons zero_less_Suc)
  have "chunk_ranges D i = (i, min (i + 30) D) # chunk_ranges D (i + 30)"
    using lt by (simp add: chunk_ranges.simps [of D i])
  also have "chunk_ranges D (i + 30) =
      map (\<lambda>k. (i + 30 + 30 * real k, min (i + 30 + 30 * real (Suc k)) D)) [0..<n]"
    using Suc(1) [OF n] n by simp
  finally show ?case
    unfolding Suc(2) [symmetric] up by (simp add: o_def algebra_simps)
qed

lemma length_chunk_ranges: "length (chunk_ranges D 0) = nat \<lceil>D / 30\<rceil>"
  by (simp add: chunk_ranges_closed)

lemma nth_chunk_ranges:
  "k < nat \<lceil>D / 30\<rceil> \<Longrightarrow>
     chunk_ranges D 0 ! k = (30 * real k, min (30 * real (Suc k)) D)"
  by (simp add: chunk_ranges_closed del: of_nat_Suc)

lemma index_below: "k < nat \<lceil>D / 30\<rceil> \<Longrightarrow> 30 * real k < D"
proof -
  assume "k < nat \<lceil>D / 30\<rceil>"
  then have "int k < \<lceil>D / 30\<rceil>" by simp
  then have "real_of_int (int k) < D / 30" by (simp only: less_ceiling_iff)
  then show ?thesis by simp
qed

lemma count_covers: "D \<le> 30 * real (nat \<lceil>D / 30\<rceil>)"
proof -
  have "D / 30 \<le> real_of_int \<lceil>D / 30\<rceil>" by (rule le_of_int_ceiling)
  also have "\<dots> \<le> real (nat \<lceil>D / 30\<rceil>)" by simp
  finally show ?thesis by simp
qed


lemma chunk_ranges_ordered:
  "sorted_wrt (\<lambda>a b. fst a < fst b \<and> snd a \<le> fst b) (chunk_ranges D 0)"
proof -
  have "fst (chunk_ranges D 0 ! j) < fst (chunk_ranges D 0 ! k)
        \<and> snd (chunk_ranges D 0 ! j) \<le> fst (chunk_ranges D 0 ! k)"
    if "j < k" and "k < length (chunk_ranges D 0)" for j k
  proof -
    have k: "k < nat \<lceil>D / 30\<rceil>" and j: "j < nat \<lceil>D / 30\<rceil>"
      using that by (simp_all add: length_chunk_ranges)
    have "real (Suc j) \<le> real k" using that(1) by (simp del: of_nat_Suc)
    then have "30 * real (Suc j) \<le> 30 * real k" by simp
    moreover have "real j < real k" using that(1) by simp
    ultimately show ?thesis
      by (simp add: nth_chunk_ranges [OF k] nth_chunk_ranges [OF j] min_le_iff_disj
          del: of_nat_Suc)
  qed
  then show ?thesis by (simp add: sorted_wrt_iff_nth_less)
qed

text \<open>
  The ranges of a duration \<open>D \<ge> 0\<close>: there are \<open>\<lceil>D / 30\<rceil>\<close> of them, none when \<open>D = 0\<close>.
  Every range is non-empty and at most 30 seconds long, each ends where the next one
  starts, and they are ordered and pairwise disjoint. When \<open>D > 0\<close> the first starts at
  0 and the last ends at \<open>D\<close>.
\<close>

lemma chunk_ranges_partition:
  assumes "0 \<le> D"
  shows "length (chunk_ranges D 0) = nat \<lceil>D / 30\<rceil>
       \<and> (D = 0 \<longrightarrow> chunk_ranges D 0 = [])
       \<and> (\<forall>k. k < length (chunk_ranges D 0) \<longrightarrow>
             fst (chunk_ranges D 0 ! k) < snd (chunk_ranges D 0 ! k)
             \<and> snd (chunk_ranges D 0 ! k) - fst (chunk_ranges D 0 ! k) \<le> 30)
       \<and> (\<forall>k. Suc k < length (chunk_ranges D 0) \<longrightarrow>
             snd (chunk_ranges D 0 ! k) = fst (chunk_ranges D 0 ! Suc k))
       \<and> sorted_wrt (\<lambda>a b. fst a < fst b \<and> snd a \<le> fst b) (chunk_ranges D 0)
       \<and> (0 < D \<longrightarrow> chunk_ranges D 0 \<noteq> []
             \<and> fst (hd (chunk_ranges D 0)) = 0 \<and> snd (last (chunk_ranges D 0)) = D
             \<and> 0 < snd (last (chunk_ranges D 0)) - fst (last (chunk_ranges D 0))
             \<and> snd (last (chunk_ranges D 0)) - fst (last (chunk_ranges D 0)) \<le> 30)"
proof -
  let ?cs = "chunk_ranges D 0"
  let ?n = "nat \<lceil>D / 30\<rceil>"
  have len: "length ?cs = ?n" by (rule length_chunk_ranges)
  have empty: "D = 0 \<longrightarrow> ?cs = []"
    by (simp add: chunk_ranges.simps)
  have each: "fst (?cs ! k) < snd (?cs ! k) \<and> snd (?cs ! k) - fst (?cs ! k) \<le> 30"
    if "k < length ?cs" for k
  proof -
    have k: "k < ?n" using that len by simp
    have "30 * real k < D" by (rule index_below [OF k])
    then show ?thesis by (simp add: nth_chunk_ranges [OF k])
  qed
  have contiguous: "snd (?cs ! k) = fst (?cs ! Suc k)" if "Suc k < length ?cs" for k
  proof -
    have k1: "Suc k < ?n" using that len by simp
    then have k: "k < ?n" by simp
    have "30 * real (Suc k) < D" by (rule index_below [OF k1])
    then show ?thesis
      by (simp add: nth_chunk_ranges [OF k] nth_chunk_ranges [OF k1] del: of_nat_Suc)
  qed
  have ends: "?cs \<noteq> [] \<and> fst (hd ?cs) = 0 \<and> snd (last ?cs) = D
      \<and> 0 < snd (last ?cs) - fst (last ?cs) \<and> snd (last ?cs) - fst (last ?cs) \<le> 30"
    if "0 < D"
  proof -
    have "0 < D / 30" using that by simp
    then have "0 < \<lceil>D / 30\<rceil>" by (simp only: zero_less_ceiling)
    then have n: "0 < ?n" by simp
    then obtain m where m: "?n = Suc m" by (cases ?n) simp_all
    have ne: "?cs \<noteq> []" using len m by auto
    have h: "hd ?cs = ?cs ! 0" using ne by (simp add: hd_conv_nth)
    have l: "last ?cs = ?cs ! m" using ne len m by (simp add: last_conv_nth)
    have k: "m < ?n" using m by simp
    have cover: "D \<le> 30 * real (Suc m)" using count_covers [of D] m by simp
    have below: "30 * real m < D" by (rule index_below [OF k])
    have "?cs ! m = (30 * real m, min (30 * real (Suc m)) D)"
      by (rule nth_chunk_ranges [OF k])
    then have lastc: "?cs ! m = (30 * real m, D)" using cover by (simp only: min_absorb2)
    have width: "D - 30 * real m \<le> 30" using cover by simp
    have "?cs ! 0 = (0, min 30 D)" using nth_chunk_ranges [OF n] by simp
    then show ?thesis using ne h l below lastc width by simp
  qed
  show ?thesis using len empty each contiguous chunk_ranges_ordered ends by blast
qed

lemma chunk_ranges_65: "chunk_ranges 65 0 = [(0, 30), (30, 60), (60, 65)]"
  by (simp add: chunk_ranges.simps [of 65 0] chunk_ranges.simps [of 65 30]
      chunk_ranges.simps [of 65 60] chunk_ranges.simps [of 65 90])

section \<open>Properties of the loop\<close>

lemma same_outputs_refl [simp]: "same_outputs s s"
  by (simp add: same_outputs_def)

lemma same_outputs_trans: "same_outputs s2 s1 \<Longrightarrow> same_outputs s1 s \<Longrightarrow> same_outputs s2 s"
  by (simp add: same_outputs_def)

lemma after_call_fields:
  "calls (after_call e D i s) = calls s @ [(i, min (i + 30) D)]"
  "isGenerationCancelled (after_call e D i s) =
     (isGenerationCancelled s \<or> click e = Some (Suc (length (calls s))))"
  "same_outputs (after_call e D i s) s"
  by (simp_all add: after_call_def generateContent_def Let_def await_def press_cancel_def
      same_outputs_def)

lemma blocks_Nil [simp]: "blocks e c [] = []"
  by (simp add: blocks_def)

lemma blocks_Cons: "blocks e c (r # rs) = blocks e c [r] @ blocks e (Suc c) rs"
  by (simp add: blocks_def)

lemma chunk_loop_step:
  "chunk_loop e D i v s =
     (if i < D \<and> \<not> isGenerationCancelled s then
        (case remote e (Suc (length (calls s))) of
           Rejects \<Rightarrow> (Inl RemoteCallError, after_call e D i s)
         | Resolves None \<Rightarrow> (Inl TypeError, after_call e D i s)
         | Resolves (Some text) \<Rightarrow>
             chunk_loop e D (i + 30) (v @ blocks e (length (calls s)) [(i, min (i + 30) D)])
               (after_call e D i s))
      else (Inr v, s))"
  by (subst chunk_loop.simps)
    (simp add: Let_def generateContent_def after_call_def blocks_def render_cue_def
      cue_block_def split: response.splits option.splits)

lemma chunk_ranges_Cons:
  "i < D \<Longrightarrow> chunk_ranges D i = (i, min (i + 30) D) # chunk_ranges D (i + 30)"
  by (simp add: chunk_ranges.simps [of D i])

lemma chunk_ranges_Nil: "\<not> i < D \<Longrightarrow> chunk_ranges D i = []"
  by (simp add: chunk_ranges.simps [of D i])

lemma chunk_ranges_nonempty: "chunk_ranges D i \<noteq> [] \<longleftrightarrow> i < D"
  by (simp add: chunk_ranges.simps [of D i])

lemma step_stop:
  "\<not> (i < D \<and> \<not> isGenerationCancelled s) \<Longrightarrow> chunk_loop e D i v s = (Inr v, s)"
  by (subst chunk_loop_step) auto

lemma step_reject:
  "i < D \<Longrightarrow> \<not> isGenerationCancelled s \<Longrightarrow> remote e (Suc (length (calls s))) = Rejects \<Longrightarrow>
     chunk_loop e D i v s = (Inl RemoteCallError, after_call e D i s)"
  by (simp add: chunk_loop_step [of e D i v s])

lemma step_no_text:
  "i < D \<Longrightarrow> \<not> isGenerationCancelled s \<Longrightarrow>
     remote e (Suc (length (calls s))) = Resolves None \<Longrightarrow>
     chunk_loop e D i v s = (Inl TypeError, after_call e D i s)"
  by (simp add: chunk_loop_step [of e D i v s])

lemma step_text:
  "i < D \<Longrightarrow> \<not> isGenerationCancelled s \<Longrightarrow>
     remote e (Suc (length (calls s))) = Resolves (Some tx) \<Longrightarrow>
     chunk_loop e D i v s =
       chunk_loop e D (i + 30) (v @ blocks e (length (calls s)) [(i, min (i + 30) D)])
         (after_call e D i s)"
  by (simp add: chunk_loop_step [of e D i v s])

lemma chunk_loop_result:
  "chunk_loop e D i v s = (r, s') \<Longrightarrow>
     \<exists>n\<le>length (chunk_ranges D i).
        calls s' = calls s @ take n (chunk_ranges D i)
      \<and> (\<forall>doc. r = Inr doc \<longrightarrow> doc = v @ blocks e (length (calls s)) (take n (chunk_ranges D i)))
      \<and> same_outputs s' s"
proof (induction "length (chunk_ranges D i)" arbitrary: i v s)
  case 0
  then have "chunk_ranges D i = []" by simp
  then have "\<not> i < D" using chunk_ranges_nonempty [of D i] by simp
  then have "chunk_loop e D i v s = (Inr v, s)" by (simp add: step_stop)
  then have "r = Inr v" "s' = s" using 0(2) by simp_all
  then have "calls s' = calls s @ take 0 (chunk_ranges D i)
      \<and> (\<forall>doc. r = Inr doc \<longrightarrow> doc = v @ blocks e (length (calls s)) (take 0 (chunk_ranges D i)))
      \<and> same_outputs s' s"
    by simp
  then show ?case by blast
next
  case (Suc n)
  then have "chunk_ranges D i \<noteq> []" by auto
  then have lt: "i < D" by (simp add: chunk_ranges_nonempty)
  note cr = chunk_ranges_Cons [OF lt]
  let ?first = "(i, min (i + 30) D)"
  let ?rest = "chunk_ranges D (i + 30)"
  let ?c = "length (calls s)"
  let ?sa = "after_call e D i s"
  have n: "n = length ?rest" using Suc(2) cr by simp
  have one: "1 \<le> length (chunk_ranges D i)" by (simp add: cr)
  have failed: ?case if "r = Inl err" and "s' = ?sa" for err
  proof -
    have "calls s' = calls s @ take 1 (chunk_ranges D i)
        \<and> (\<forall>doc. r = Inr doc \<longrightarrow> doc = v @ blocks e ?c (take 1 (chunk_ranges D i)))
        \<and> same_outputs s' s"
      using that by (simp add: after_call_fields cr)
    then show ?thesis using one by blast
  qed
  show ?case
  proof (cases "isGenerationCancelled s")
    case True
    then have "chunk_loop e D i v s = (Inr v, s)" by (simp add: step_stop)
    then have "r = Inr v" "s' = s" using Suc.prems by simp_all
    then have "calls s' = calls s @ take 0 (chunk_ranges D i)
        \<and> (\<forall>doc. r = Inr doc \<longrightarrow> doc = v @ blocks e ?c (take 0 (chunk_ranges D i)))
        \<and> same_outputs s' s"
      by simp
    then show ?thesis by blast
  next
    case False
    show ?thesis
    proof (cases "remote e (Suc ?c)")
      case Rejects
      then have "chunk_loop e D i v s = (Inl RemoteCallError, ?sa)"
        using lt False by (simp add: step_reject)
      then have "r = Inl RemoteCallError" "s' = ?sa" using Suc.prems by simp_all
      then show ?thesis by (rule failed)
    next
      case (Resolves t)
      show ?thesis
      proof (cases t)
        case None
        then have "chunk_loop e D i v s = (Inl TypeError, ?sa)"
          using lt False Resolves by (simp add: step_no_text)
        then have "r = Inl TypeError" "s' = ?sa" using Suc.prems by simp_all
        then show ?thesis by (rule failed)
      next
        case (Some tx)
        have "chunk_loop e D i v s = chunk_loop e D (i + 30) (v @ blocks e ?c [?first]) ?sa"
          using lt False Resolves Some by (simp add: step_text)
        then have "chunk_loop e D (i + 30) (v @ blocks e ?c [?first]) ?sa = (r, s')"
          using Suc.prems by simp
        from Suc(1) [OF n this] obtain k where k: "k \<le> length ?rest"
          "calls s' = calls ?sa @ take k ?rest"
          "\<forall>doc. r = Inr doc \<longrightarrow>
             doc = (v @ blocks e ?c [?first]) @ blocks e (length (calls ?sa)) (take k ?rest)"
          "same_outputs s' ?sa"
          by blast
        have "calls s' = calls s @ take (Suc k) (chunk_ranges D i)"
          using k(2) by (simp add: after_call_fields cr)
        moreover have "\<forall>doc. r = Inr doc \<longrightarrow>
            doc = v @ blocks e ?c (take (Suc k) (chunk_ranges D i))"
          using k(3) by (simp add: after_call_fields cr blocks_Cons [of e ?c ?first "take k ?rest"])
        moreover have "same_outputs s' s"
          using k(4) after_call_fields(3) [of e D i s] by (rule same_outputs_trans)
        moreover have "Suc k \<le> length (chunk_ranges D i)" using k(1) by (simp add: cr)
        ultimately show ?thesis by blast
      qed
    qed
  qed
qed

lemma chunk_loop_run:
  assumes "m \<le> length (chunk_ranges D i)"
    and "\<not> isGenerationCancelled s"
    and "\<forall>j. 1 \<le> j \<and> j \<le> m \<longrightarrow> (\<exists>t. remote e (length (calls s) + j) = Resolves (Some t))"
    and "\<forall>j. 1 \<le> j \<and> j < m \<longrightarrow> click e \<noteq> Some (length (calls s) + j)"
  shows "\<exists>s1. chunk_loop e D i v s =
              chunk_loop e D (i + 30 * real m)
                (v @ blocks e (length (calls s)) (take m (chunk_ranges D i))) s1
          \<and> calls s1 = calls s @ take m (chunk_ranges D i)
          \<and> (isGenerationCancelled s1 \<longleftrightarrow> 0 < m \<and> click e = Some (length (calls s) + m))
          \<and> same_outputs s1 s"
  using assms
proof (induction m arbitrary: i v s)
  case 0
  then have "chunk_loop e D i v s = chunk_loop e D (i + 30 * real 0)
        (v @ blocks e (length (calls s)) (take 0 (chunk_ranges D i))) s
      \<and> calls s = calls s @ take 0 (chunk_ranges D i)
      \<and> (isGenerationCancelled s \<longleftrightarrow> 0 < (0::nat) \<and> click e = Some (length (calls s) + 0))
      \<and> same_outputs s s"
    by simp
  then show ?case by blast
next
  case (Suc m)
  let ?c = "length (calls s)"
  let ?first = "(i, min (i + 30) D)"
  let ?rest = "chunk_ranges D (i + 30)"
  let ?sa = "after_call e D i s"
  let ?v1 = "v @ blocks e ?c [?first]"
  from Suc.prems(1) have "chunk_ranges D i \<noteq> []" by auto
  then have lt: "i < D" by (simp add: chunk_ranges_nonempty)
  note cr = chunk_ranges_Cons [OF lt]
  from Suc.prems(3) obtain t where t: "remote e (Suc ?c) = Resolves (Some t)"
    by (metis Suc_eq_plus1 le_add2 le_refl plus_1_eq_Suc)
  have step: "chunk_loop e D i v s = chunk_loop e D (i + 30) ?v1 ?sa"
    using lt Suc.prems(2) t by (rule step_text)
  have csa: "calls ?sa = calls s @ [?first]" by (rule after_call_fields(1))
  have lsa: "length (calls ?sa) = Suc ?c" by (simp add: csa)
  show ?case
  proof (cases "m = 0")
    case True
    have "chunk_loop e D i v s = chunk_loop e D (i + 30 * real (Suc m))
          (v @ blocks e ?c (take (Suc m) (chunk_ranges D i))) ?sa
        \<and> calls ?sa = calls s @ take (Suc m) (chunk_ranges D i)
        \<and> (isGenerationCancelled ?sa \<longleftrightarrow> 0 < Suc m \<and> click e = Some (?c + Suc m))
        \<and> same_outputs ?sa s"
      using True step Suc.prems(2) by (simp add: cr after_call_fields)
    then show ?thesis by blast
  next
    case False
    then have "1 \<le> (1::nat) \<and> 1 < Suc m" by simp
    then have "click e \<noteq> Some (?c + 1)" using Suc.prems(4) by blast
    then have nc: "\<not> isGenerationCancelled ?sa"
      using Suc.prems(2) by (simp add: after_call_fields)
    have le: "m \<le> length ?rest" using Suc.prems(1) by (simp add: cr)
    have r: "\<forall>j. 1 \<le> j \<and> j \<le> m \<longrightarrow> (\<exists>t. remote e (length (calls ?sa) + j) = Resolves (Some t))"
    proof (intro allI impI)
      fix j assume "1 \<le> j \<and> j \<le> m"
      then have "1 \<le> Suc j \<and> Suc j \<le> Suc m" by simp
      then have "\<exists>t. remote e (?c + Suc j) = Resolves (Some t)" using Suc.prems(3) by blast
      then show "\<exists>t. remote e (length (calls ?sa) + j) = Resolves (Some t)" by (simp add: lsa)
    qed
    have k: "\<forall>j. 1 \<le> j \<and> j < m \<longrightarrow> click e \<noteq> Some (length (calls ?sa) + j)"
    proof (intro allI impI)
      fix j assume "1 \<le> j \<and> j < m"
      then have "1 \<le> Suc j \<and> Suc j < Suc m" by simp
      then have "click e \<noteq> Some (?c + Suc j)" using Suc.prems(4) by blast
      then show "click e \<noteq> Some (length (calls ?sa) + j)" by (simp add: lsa)
    qed
    from Suc.IH [OF le nc r k, of ?v1] obtain s1 where s1:
      "chunk_loop e D (i + 30) ?v1 ?sa =
         chunk_loop e D (i + 30 + 30 * real m)
           (?v1 @ blocks e (length (calls ?sa)) (take m ?rest)) s1"
      "calls s1 = calls ?sa @ take m ?rest"
      "isGenerationCancelled s1 \<longleftrightarrow> 0 < m \<and> click e = Some (length (calls ?sa) + m)"
      "same_outputs s1 ?sa"
      by blast
    have pos: "i + 30 + 30 * real m = i + 30 * real (Suc m)" by simp
    have doc: "?v1 @ blocks e (length (calls ?sa)) (take m ?rest)
        = v @ blocks e ?c (take (Suc m) (chunk_ranges D i))"
      by (simp add: lsa cr blocks_Cons [of e ?c ?first "take m ?rest"])
    have "chunk_loop e D i v s = chunk_loop e D (i + 30 * real (Suc m))
        (v @ blocks e ?c (take (Suc m) (chunk_ranges D i))) s1"
      using step s1(1) unfolding pos doc by simp
    moreover have "calls s1 = calls s @ take (Suc m) (chunk_ranges D i)"
      using s1(2) by (simp add: csa cr)
    moreover have "isGenerationCancelled s1 \<longleftrightarrow> 0 < Suc m \<and> click e = Some (?c + Suc m)"
      using s1(3) False by (simp add: lsa)
    moreover have "same_outputs s1 s"
      using s1(4) after_call_fields(3) [of e D i s] by (rule same_outputs_trans)
    ultimately show ?thesis by blast
  qed
qed

lemma position_in_range: "m < length (chunk_ranges D 0) \<longleftrightarrow> 30 * real m < D"
proof
  assume "m < length (chunk_ranges D 0)"
  then show "30 * real m < D" by (simp add: length_chunk_ranges index_below)
next
  assume "30 * real m < D"
  then have "real_of_int (int m) < D / 30" by simp
  then have "int m < \<lceil>D / 30\<rceil>" by (simp only: less_ceiling_iff)
  then show "m < length (chunk_ranges D 0)" by (simp add: length_chunk_ranges)
qed

lemma await_other: "click e \<noteq> Some n \<Longrightarrow> await e n s = s"
  by (simp add: await_def)

lemma transcribeAudio_decoded:
  assumes "currentFile s \<noteq> None" and "decode e = Inr D" and "click e \<noteq> Some 0"
  shows "transcribeAudio e s = chunk_loop e D 0 vtt_header (s\<lparr>status := Decoding\<rparr>)"
  using assms by (auto simp: transcribeAudio_def await_other)

lemma transcribeAudio_cancelled_at:
  assumes loaded: "currentFile s \<noteq> None" and nc: "\<not> isGenerationCancelled s"
    and fresh: "calls s = []" and dec: "decode e = Inr D"
    and click: "click e = Some k" and k1: "1 \<le> k" and kn: "k \<le> length (chunk_ranges D 0)"
    and ok: "\<forall>j. 1 \<le> j \<and> j \<le> k \<longrightarrow> (\<exists>t. remote e j = Resolves (Some t))"
  shows "\<exists>s'. transcribeAudio e s =
              (Inr (vtt_header @ blocks e 0 (take k (chunk_ranges D 0))), s')
          \<and> calls s' = take k (chunk_ranges D 0)
          \<and> isGenerationCancelled s' \<and> same_outputs s' s"
proof -
  let ?sd = "s\<lparr>status := Decoding\<rparr>"
  let ?doc = "vtt_header @ blocks e 0 (take k (chunk_ranges D 0))"
  have start: "transcribeAudio e s = chunk_loop e D 0 vtt_header ?sd"
    using loaded dec click k1 by (intro transcribeAudio_decoded) simp_all
  have a: "\<not> isGenerationCancelled ?sd" using nc by simp
  have b: "\<forall>j. 1 \<le> j \<and> j \<le> k \<longrightarrow> (\<exists>t. remote e (length (calls ?sd) + j) = Resolves (Some t))"
    using ok fresh by simp
  have c: "\<forall>j. 1 \<le> j \<and> j < k \<longrightarrow> click e \<noteq> Some (length (calls ?sd) + j)"
    using click fresh by simp
  from chunk_loop_run [OF kn a b c, of vtt_header] obtain s1 where s1:
    "chunk_loop e D 0 vtt_header ?sd =
       chunk_loop e D (0 + 30 * real k)
         (vtt_header @ blocks e (length (calls ?sd)) (take k (chunk_ranges D 0))) s1"
    "calls s1 = calls ?sd @ take k (chunk_ranges D 0)"
    "isGenerationCancelled s1 \<longleftrightarrow> 0 < k \<and> click e = Some (length (calls ?sd) + k)"
    "same_outputs s1 ?sd"
    by blast
  have canc: "isGenerationCancelled s1" using s1(3) k1 click fresh by simp
  then have "chunk_loop e D (0 + 30 * real k) ?doc s1 = (Inr ?doc, s1)"
    by (intro step_stop) simp
  then have "transcribeAudio e s = (Inr ?doc, s1)" using start s1(1) fresh by simp
  moreover have "calls s1 = take k (chunk_ranges D 0)" using s1(2) fresh by simp
  moreover have "same_outputs s1 s" using s1(4) by (simp add: same_outputs_def)
  ultimately show ?thesis using canc by blast
qed

lemma take_Suc_chunk_ranges:
  assumes "m < length (chunk_ranges D 0)"
  shows "take m (chunk_ranges D 0) @ [(30 * real m, min (30 * real m + 30) D)]
           = take (Suc m) (chunk_ranges D 0)"
proof -
  have "m < nat \<lceil>D / 30\<rceil>" using assms by (simp add: length_chunk_ranges)
  then have "chunk_ranges D 0 ! m = (30 * real m, min (30 * real (Suc m)) D)"
    by (rule nth_chunk_ranges)
  moreover have "30 * real (Suc m) = 30 * real m + 30" by simp
  ultimately have "chunk_ranges D 0 ! m = (30 * real m, min (30 * real m + 30) D)"
    by (simp only:)
  then show ?thesis using assms by (simp add: take_Suc_conv_app_nth)
qed

lemma transcribeAudio_failed_at:
  assumes loaded: "currentFile s \<noteq> None" and nc: "\<not> isGenerationCancelled s"
    and fresh: "calls s = []" and dec: "decode e = Inr D"
    and k1: "1 \<le> k" and kn: "k \<le> length (chunk_ranges D 0)"
    and ok: "\<forall>j. 1 \<le> j \<and> j < k \<longrightarrow> (\<exists>t. remote e j = Resolves (Some t))"
    and bad: "remote e k = Rejects \<or> remote e k = Resolves None"
    and quiet: "\<forall>j. j < k \<longrightarrow> click e \<noteq> Some j"
  shows "\<exists>err s'. transcribeAudio e s = (Inl err, s')
          \<and> calls s' = take k (chunk_ranges D 0)
          \<and> (isGenerationCancelled s' \<longleftrightarrow> click e = Some k) \<and> same_outputs s' s"
proof -
  obtain m where m: "k = Suc m" using k1 by (cases k) simp_all
  let ?sd = "s\<lparr>status := Decoding\<rparr>"
  let ?doc = "vtt_header @ blocks e 0 (take m (chunk_ranges D 0))"
  have start: "transcribeAudio e s = chunk_loop e D 0 vtt_header ?sd"
    using loaded dec quiet k1 by (intro transcribeAudio_decoded) simp_all
  have mlt: "m < length (chunk_ranges D 0)" using kn m by simp
  then have mle: "m \<le> length (chunk_ranges D 0)" by simp
  have a: "\<not> isGenerationCancelled ?sd" using nc by simp
  have b: "\<forall>j. 1 \<le> j \<and> j \<le> m \<longrightarrow> (\<exists>t. remote e (length (calls ?sd) + j) = Resolves (Some t))"
    using ok fresh m by simp
  have c: "\<forall>j. 1 \<le> j \<and> j < m \<longrightarrow> click e \<noteq> Some (length (calls ?sd) + j)"
    using quiet fresh m by simp
  from chunk_loop_run [OF mle a b c, of vtt_header] obtain s1 where s1:
    "chunk_loop e D 0 vtt_header ?sd =
       chunk_loop e D (0 + 30 * real m)
         (vtt_header @ blocks e (length (calls ?sd)) (take m (chunk_ranges D 0))) s1"
    "calls s1 = calls ?sd @ take m (chunk_ranges D 0)"
    "isGenerationCancelled s1 \<longleftrightarrow> 0 < m \<and> click e = Some (length (calls ?sd) + m)"
    "same_outputs s1 ?sd"
    by blast
  have cs1: "calls s1 = take m (chunk_ranges D 0)" using s1(2) fresh by simp
  then have ls1: "length (calls s1) = m" using mle by simp
  have "click e \<noteq> Some m" using quiet m by simp
  then have nc1: "\<not> isGenerationCancelled s1" using s1(3) fresh by simp
  have lt: "30 * real m < D" using mlt by (simp add: position_in_range)
  let ?sf = "after_call e D (30 * real m) s1"
  have "\<exists>err. chunk_loop e D (30 * real m) ?doc s1 = (Inl err, ?sf)"
  proof -
    from bad have "remote e (Suc (length (calls s1))) = Rejects
        \<or> remote e (Suc (length (calls s1))) = Resolves None"
      using ls1 m by simp
    then show ?thesis
      using step_reject [OF lt nc1, of e ?doc] step_no_text [OF lt nc1, of e ?doc] by blast
  qed
  then obtain err where "transcribeAudio e s = (Inl err, ?sf)"
    using start s1(1) fresh by auto
  moreover have "calls ?sf = take k (chunk_ranges D 0)"
    using take_Suc_chunk_ranges [OF mlt] by (simp add: after_call_fields cs1 m)
  moreover have "isGenerationCancelled ?sf \<longleftrightarrow> click e = Some k"
    using nc1 by (simp add: after_call_fields ls1 m)
  moreover have "same_outputs ?sf s"
    using after_call_fields(3) [of e D "30 * real m" s1] s1(4)
    by (simp add: same_outputs_def)
  ultimately show ?thesis by blast
qed

section \<open>The caption document\<close>

lemma is_digit_digit: "0 \<le> d \<Longrightarrow> d \<le> 9 \<Longrightarrow> is_digit (digit d)"
proof -
  assume "0 \<le> d" "d \<le> 9"
  then have "d = 0 \<or> d = 1 \<or> d = 2 \<or> d = 3 \<or> d = 4 \<or> d = 5 \<or> d = 6 \<or> d = 7 \<or> d = 8 \<or> d = 9"
    by arith
  then show ?thesis by (auto simp: is_digit_def digit_def)
qed

lemma is_digit_mod: "is_digit (digit (n mod 10))"
  by (rule is_digit_digit) simp_all

lemma timestamp_formatTimeVTT: "timestamp (formatTimeVTT tza x)"
  by (simp add: timestamp_def formatTimeVTT_def isoTimeOfDay_def dec2_def dec3_def ustr_def
      is_digit_mod)

lemma cues_of_append:
  "cues_of e c (xs @ ys) = cues_of e c xs @ cues_of e (c + length xs) ys"
  by (induction xs arbitrary: c) simp_all

lemma cues_of_ranges: "x \<in> set (cues_of e c rs) \<Longrightarrow> (fst x, fst (snd x)) \<in> set rs \<and> snd (snd x) \<noteq> []"
  by (induction rs arbitrary: c) (auto split: response.splits option.splits if_splits)

lemma no_line_feed: "0xA \<notin> set (replace_newlines s)"
  by (auto simp: replace_newlines_def)

lemma cues_of_one_line: "x \<in> set (cues_of e c rs) \<Longrightarrow> 0xA \<notin> set (snd (snd x))"
  by (induction rs arbitrary: c)
    (auto simp: no_line_feed split: response.splits option.splits if_splits)

lemma cues_of_sorted:
  "sorted_wrt (\<lambda>a b. fst a < fst b \<and> snd a \<le> fst b) rs \<Longrightarrow>
     sorted_wrt (\<lambda>c1 c2. fst c1 < fst c2 \<and> fst (snd c1) \<le> fst c2) (cues_of e c rs)"
proof (induction rs arbitrary: c)
  case Nil
  then show ?case by simp
next
  case (Cons r rs)
  have tl: "sorted_wrt (\<lambda>c1 c2. fst c1 < fst c2 \<and> fst (snd c1) \<le> fst c2) (cues_of e (Suc c) rs)"
    using Cons by simp
  have hd: "fst r < fst x \<and> snd r \<le> fst x" if "x \<in> set (cues_of e (Suc c) rs)" for x
  proof -
    have "(fst x, fst (snd x)) \<in> set rs" using cues_of_ranges [OF that] by simp
    then show ?thesis using Cons.prems by auto
  qed
  show ?case
    using tl hd by (auto simp: sorted_wrt_append split: response.splits option.splits)
qed

lemma toDocumentText_blocks:
  "toDocumentText (localTZA e) (cues_of e c rs) = vtt_header @ blocks e c rs"
  by (simp add: toDocumentText_def vtt_header_def blocks_def)

text \<open>
  Whenever \<^verbatim>\<open>transcribeAudio\<close> returns a document, it is the specification's
  \<open>toDocumentText\<close> of the cues of the calls the run made: the header line, then for
  each cue a timestamp line, the cue text and a blank line. Every cue has a text that
  is not empty and holds no line feed, and timestamps of the shape \<^verbatim>\<open>HH:MM:SS.mmm\<close>. The
  chunk ranges the cues come from strictly increase and do not overlap.
\<close>

lemma caption_document_format:
  assumes "transcribeAudio e s = (Inr doc, s')" and "calls s = []"
  shows "doc = toDocumentText (localTZA e) (cues_of e 0 (calls s'))
       \<and> list_all (\<lambda>c. snd (snd c) \<noteq> [] \<and> 0xA \<notin> set (snd (snd c))
                        \<and> timestamp (formatTimeVTT (localTZA e) (fst c))
                        \<and> timestamp (formatTimeVTT (localTZA e) (fst (snd c))))
           (cues_of e 0 (calls s'))
       \<and> sorted_wrt (\<lambda>c1 c2. fst c1 < fst c2 \<and> fst (snd c1) \<le> fst c2)
           (cues_of e 0 (calls s'))"
proof -
  from assms(1) obtain D where dec: "decode e = Inr D"
    and loop: "chunk_loop e D 0 vtt_header (await e 0 (s\<lparr>status := Decoding\<rparr>)) = (Inr doc, s')"
    by (auto simp: transcribeAudio_def Let_def split: option.splits sum.splits)
  let ?sd = "await e 0 (s\<lparr>status := Decoding\<rparr>)"
  have fresh: "calls ?sd = []" using assms(2) by (simp add: await_def press_cancel_def)
  from chunk_loop_result [OF loop] obtain n where n:
    "calls s' = calls ?sd @ take n (chunk_ranges D 0)"
    "\<forall>d. Inr doc = Inr d \<longrightarrow> d = vtt_header @ blocks e (length (calls ?sd)) (take n (chunk_ranges D 0))"
    by blast
  have cs: "calls s' = take n (chunk_ranges D 0)" using n(1) fresh by simp
  have "doc = vtt_header @ blocks e 0 (calls s')" using n(2) fresh cs by simp
  then have a: "doc = toDocumentText (localTZA e) (cues_of e 0 (calls s'))"
    by (simp add: toDocumentText_blocks)
  have b: "list_all (\<lambda>c. snd (snd c) \<noteq> [] \<and> 0xA \<notin> set (snd (snd c))
                        \<and> timestamp (formatTimeVTT (localTZA e) (fst c))
                        \<and> timestamp (formatTimeVTT (localTZA e) (fst (snd c))))
           (cues_of e 0 (calls s'))"
    using cues_of_ranges [of _ e 0 "calls s'"] cues_of_one_line [of _ e 0 "calls s'"]
    by (simp add: list_all_iff timestamp_formatTimeVTT)
  have "sorted_wrt (\<lambda>a b. fst a < fst b \<and> snd a \<le> fst b) (calls s')"
    unfolding cs by (rule sorted_wrt_take [OF chunk_ranges_ordered])
  then have c: "sorted_wrt (\<lambda>c1 c2. fst c1 < fst c2 \<and> fst (snd c1) \<le> fst c2)
           (cues_of e 0 (calls s'))"
    by (rule cues_of_sorted)
  show ?thesis using a b c by simp
qed

text \<open>
  C6. On a host in the zone Africa/Monrovia a 65-second file whose three chunks are
  all answered with \<^verbatim>\<open>a\<close> gives a document of the stated form, but its timestamps are
  30 seconds early: the first cue reads \<^verbatim>\<open>23:59:30.000 --> 00:00:00.000\<close> and the second
  \<^verbatim>\<open>00:00:00.000 --> 00:00:30.000\<close>, so the start times the document shows do not
  increase, and the last cue ends at \<^verbatim>\<open>00:00:35.000\<close> for audio that ends at 65
  seconds. The chunks behind the cues are \<open>[0, 30)\<close>, \<open>[30, 60)\<close> and \<open>[60, 65)\<close>.
\<close>

theorem caption_timestamps_monrovia_host:
  "fst (transcribeAudio (monrovia_env 65) loaded) =
     Inr (ustr ''WEBVTT'' @ LF @ LF @
          ustr ''23:59:30.000 --> 00:00:00.000'' @ LF @ ustr ''a'' @ LF @ LF @
          ustr ''00:00:00.000 --> 00:00:30.000'' @ LF @ ustr ''a'' @ LF @ LF @
          ustr ''00:00:30.000 --> 00:00:35.000'' @ LF @ ustr ''a'' @ LF @ LF)
   \<and> calls (snd (transcribeAudio (monrovia_env 65) loaded)) = [(0, 30), (30, 60), (60, 65)]
   \<and> formatTimeVTT (localTZA (monrovia_env 65)) 0 = ustr ''23:59:30.000''
   \<and> formatTimeVTT (localTZA (monrovia_env 65)) 30 = ustr ''00:00:00.000''"
  by code_simp

text \<open>A run that is neither cancelled nor failed calls exactly the chunk ranges.\<close>

lemma transcribeAudio_complete:
  assumes loaded: "currentFile s \<noteq> None" and nc: "\<not> isGenerationCancelled s"
    and fresh: "calls s = []" and dec: "decode e = Inr D"
    and click: "click e = None"
    and ok: "\<forall>j. \<exists>t. remote e j = Resolves (Some t)"
  shows "\<exists>s'. transcribeAudio e s =
              (Inr (toDocumentText (localTZA e) (cues_of e 0 (chunk_ranges D 0))), s')
          \<and> calls s' = chunk_ranges D 0 \<and> \<not> isGenerationCancelled s'"
proof -
  let ?sd = "s\<lparr>status := Decoding\<rparr>"
  let ?n = "length (chunk_ranges D 0)"
  let ?doc = "vtt_header @ blocks e 0 (chunk_ranges D 0)"
  have start: "transcribeAudio e s = chunk_loop e D 0 vtt_header ?sd"
    using loaded dec click by (intro transcribeAudio_decoded) simp_all
  have a: "\<not> isGenerationCancelled ?sd" using nc by simp
  have b: "\<forall>j. 1 \<le> j \<and> j \<le> ?n \<longrightarrow> (\<exists>t. remote e (length (calls ?sd) + j) = Resolves (Some t))"
    using ok by simp
  have c: "\<forall>j. 1 \<le> j \<and> j < ?n \<longrightarrow> click e \<noteq> Some (length (calls ?sd) + j)"
    using click by simp
  from chunk_loop_run [OF le_refl a b c, of vtt_header] obtain s1 where s1:
    "chunk_loop e D 0 vtt_header ?sd =
       chunk_loop e D (0 + 30 * real ?n)
         (vtt_header @ blocks e (length (calls ?sd)) (take ?n (chunk_ranges D 0))) s1"
    "calls s1 = calls ?sd @ take ?n (chunk_ranges D 0)"
    "isGenerationCancelled s1 \<longleftrightarrow> 0 < ?n \<and> click e = Some (length (calls ?sd) + ?n)"
    by blast
  have "\<not> 30 * real ?n < D" using position_in_range [of ?n D] by simp
  then have "chunk_loop e D (0 + 30 * real ?n) ?doc s1 = (Inr ?doc, s1)"
    by (intro step_stop) simp
  then have "transcribeAudio e s = (Inr ?doc, s1)" using start s1(1) fresh by simp
  then have "transcribeAudio e s = (Inr (toDocumentText (localTZA e) (cues_of e 0 (chunk_ranges D 0))), s1)"
    by (simp only: toDocumentText_blocks)
  moreover have "calls s1 = chunk_ranges D 0" using s1(2) fresh by simp
  moreover have "\<not> isGenerationCancelled s1" using s1(3) click by simp
  ultimately show ?thesis by blast
qed

lemma transcribeAudio_calls_prefix:
  assumes "transcribeAudio e s = (r, s')" and "calls s = []" and "decode e = Inr D"
  shows "\<exists>n\<le>length (chunk_ranges D 0). calls s' = take n (chunk_ranges D 0)"
proof (cases "currentFile s")
  case None
  then have "s' = s" using assms(1) by (simp add: transcribeAudio_def)
  then have "calls s' = take 0 (chunk_ranges D 0)" using assms(2) by simp
  then show ?thesis by blast
next
  case (Some name)
  let ?sd = "await e 0 (s\<lparr>status := Decoding\<rparr>)"
  have "chunk_loop e D 0 vtt_header ?sd = (r, s')"
    using assms(1,3) Some by (simp add: transcribeAudio_def Let_def)
  from chunk_loop_result [OF this] obtain n where
    "n \<le> length (chunk_ranges D 0)" "calls s' = calls ?sd @ take n (chunk_ranges D 0)"
    by blast
  moreover have "calls ?sd = []" using assms(2) by (simp add: await_def press_cancel_def)
  ultimately show ?thesis by auto
qed

text \<open>
  C1. For every duration \<open>D \<ge> 0\<close>, a run of \<^verbatim>\<open>transcribeAudio\<close> that is neither cancelled
  nor failed returns, and the chunk ranges its loop produced, one per remote call, are
  \<open>\<lceil>D / 30\<rceil>\<close> in number, none when \<open>D = 0\<close>. Every range is non-empty and at most 30
  seconds long, each ends where the next one starts, and the ranges are ordered and
  pairwise disjoint. When \<open>D > 0\<close> the first range starts at 0 and the last one ends at
  \<open>D\<close>, with a length that is positive and at most 30. (A run that is cancelled or fails
  produces a prefix of these ranges, by \<open>transcribeAudio_calls_prefix\<close>.)
\<close>

theorem chunk_loop_partition:
  assumes "0 \<le> D" and "currentFile s \<noteq> None" and "\<not> isGenerationCancelled s"
    and "calls s = []" and "decode e = Inr D" and "click e = None"
    and "\<forall>j. \<exists>t. remote e j = Resolves (Some t)"
  shows "\<exists>doc s'. transcribeAudio e s = (Inr doc, s')
       \<and> calls s' = chunk_ranges D 0
       \<and> length (calls s') = nat \<lceil>D / 30\<rceil>
       \<and> (D = 0 \<longrightarrow> calls s' = [])
       \<and> (\<forall>k. k < length (calls s') \<longrightarrow>
             fst (calls s' ! k) < snd (calls s' ! k)
             \<and> snd (calls s' ! k) - fst (calls s' ! k) \<le> 30)
       \<and> (\<forall>k. Suc k < length (calls s') \<longrightarrow> snd (calls s' ! k) = fst (calls s' ! Suc k))
       \<and> sorted_wrt (\<lambda>a b. fst a < fst b \<and> snd a \<le> fst b) (calls s')
       \<and> (0 < D \<longrightarrow> calls s' \<noteq> []
             \<and> fst (hd (calls s')) = 0 \<and> snd (last (calls s')) = D
             \<and> 0 < snd (last (calls s')) - fst (last (calls s'))
             \<and> snd (last (calls s')) - fst (last (calls s')) \<le> 30)"
proof -
  from transcribeAudio_complete [OF assms(2-7)] obtain s' where s':
    "transcribeAudio e s =
       (Inr (toDocumentText (localTZA e) (cues_of e 0 (chunk_ranges D 0))), s')"
    "calls s' = chunk_ranges D 0"
    by blast
  show ?thesis
    using s'(1) chunk_ranges_partition [OF assms(1)]
    unfolding s'(2) [symmetric] by blast
qed

theorem chunk_loop_partition_witness:
  "(0::real) \<le> 65 \<and> click (echo_env 65 None) = None
   \<and> (\<exists>doc s'. transcribeAudio (echo_env 65 None) loaded = (Inr doc, s')
         \<and> calls s' = [(0, 30), (30, 60), (60, 65)]
         \<and> length (calls s') = nat \<lceil>(65::real) / 30\<rceil>
         \<and> snd (last (calls s')) = 65)"
proof -
  have "\<exists>doc s'. transcribeAudio (echo_env 65 None) loaded = (Inr doc, s')
       \<and> calls s' = chunk_ranges 65 0
       \<and> length (calls s') = nat \<lceil>(65::real) / 30\<rceil>"
    using chunk_loop_partition [of 65 loaded "echo_env 65 None"]
    by (auto simp: loaded_def echo_env_def)
  then show ?thesis by (auto simp: chunk_ranges_65 echo_env_def)
qed

section \<open>Cancellation and failure\<close>

lemma generateSubtitles_run:
  assumes "ai s"
    and "transcribeAudio e (s\<lparr>isGenerationCancelled := False, status := Starting\<rparr>) = (r, s1)"
  shows "generateSubtitles e s =
     (if isGenerationCancelled s1 then s1\<lparr>status := Cancelled\<rparr>
      else case r of
        Inl err \<Rightarrow> s1\<lparr>status := ErrorOrCancelled\<rparr>
      | Inr v \<Rightarrow>
          if hasSubtitles (Some v)
          then s1\<lparr>generatedVttContent := Some v, track := Some v, status := Completed\<rparr>
          else s1\<lparr>status := NoSubtitles\<rparr>)"
  using assms by (simp add: generateSubtitles_def Let_def hasSubtitles_def split: sum.splits)

text \<open>
  C8. If the cancel button is pressed while the remote call for chunk \<open>i\<close> is in flight
  (and the calls up to \<open>i\<close> resolve with a text), that call completes: the document
  \<^verbatim>\<open>transcribeAudio\<close> returns holds the cues of the chunks \<open>1, \<dots>, i\<close>, the cue of chunk
  \<open>i\<close> included when its text is not empty, exactly \<open>i\<close> calls are made, and the chunks
  after \<open>i\<close> are skipped.
\<close>

theorem cancel_in_flight_keeps_cue:
  assumes "currentFile s \<noteq> None" and "\<not> isGenerationCancelled s" and "calls s = []"
    and "decode e = Inr D" and "click e = Some i"
    and "1 \<le> i" and "i \<le> length (chunk_ranges D 0)"
    and "\<forall>j. 1 \<le> j \<and> j \<le> i \<longrightarrow> (\<exists>t. remote e j = Resolves (Some t))"
  shows "\<exists>s'. transcribeAudio e s =
              (Inr (toDocumentText (localTZA e) (cues_of e 0 (take i (chunk_ranges D 0)))), s')
          \<and> calls s' = take i (chunk_ranges D 0) \<and> length (calls s') = i
          \<and> cues_of e 0 (take i (chunk_ranges D 0)) =
              cues_of e 0 (take (i - 1) (chunk_ranges D 0))
                @ cues_of e (i - 1) [chunk_ranges D 0 ! (i - 1)]
          \<and> isGenerationCancelled s'"
proof -
  from transcribeAudio_cancelled_at [OF assms] obtain s' where s':
    "transcribeAudio e s = (Inr (vtt_header @ blocks e 0 (take i (chunk_ranges D 0))), s')"
    "calls s' = take i (chunk_ranges D 0)" "isGenerationCancelled s'"
    by blast
  obtain m where m: "i = Suc m" using assms(6) by (cases i) simp_all
  then have mlt: "m < length (chunk_ranges D 0)" using assms(7) by simp
  have "take i (chunk_ranges D 0) = take m (chunk_ranges D 0) @ [chunk_ranges D 0 ! m]"
    using mlt m by (simp add: take_Suc_conv_app_nth)
  then have split: "cues_of e 0 (take i (chunk_ranges D 0)) =
      cues_of e 0 (take (i - 1) (chunk_ranges D 0)) @ cues_of e (i - 1) [chunk_ranges D 0 ! (i - 1)]"
    using mlt m by (simp add: cues_of_append del: cues_of.simps)
  have len: "length (calls s') = i" using s'(2) assms(7) by simp
  have "transcribeAudio e s =
      (Inr (toDocumentText (localTZA e) (cues_of e 0 (take i (chunk_ranges D 0)))), s')"
    using s'(1) by (simp only: toDocumentText_blocks)
  then show ?thesis using s'(2,3) len split by blast
qed

theorem cancel_in_flight_keeps_cue_witness:
  "click (echo_env 120 (Some 2)) = Some 2 \<and> length (chunk_ranges 120 0) = 4
   \<and> (\<exists>s'. transcribeAudio (echo_env 120 (Some 2)) loaded =
         (Inr (ustr ''WEBVTT'' @ LF @ LF @
               ustr ''00:00:00.000 --> 00:00:30.000'' @ LF @ ustr ''a'' @ LF @ LF @
               ustr ''00:00:30.000 --> 00:01:00.000'' @ LF @ ustr ''a'' @ LF @ LF), s')
       \<and> calls s' = [(0, 30), (30, 60)] \<and> isGenerationCancelled s')"
proof -
  let ?e = "echo_env 120 (Some 2)"
  have len: "length (chunk_ranges 120 0) = 4" by (simp add: length_chunk_ranges)
  have tk: "take 2 (chunk_ranges 120 0) = [(0, 30), (30, 60)]" by code_simp
  have doc: "toDocumentText (localTZA ?e) (cues_of ?e 0 [(0, 30), (30, 60)]) =
      ustr ''WEBVTT'' @ LF @ LF @
      ustr ''00:00:00.000 --> 00:00:30.000'' @ LF @ ustr ''a'' @ LF @ LF @
      ustr ''00:00:30.000 --> 00:01:00.000'' @ LF @ ustr ''a'' @ LF @ LF"
    by code_simp
  have "\<exists>s'. transcribeAudio ?e loaded =
          (Inr (toDocumentText (localTZA ?e) (cues_of ?e 0 (take 2 (chunk_ranges 120 0)))), s')
        \<and> calls s' = take 2 (chunk_ranges 120 0) \<and> isGenerationCancelled s'"
    using cancel_in_flight_keeps_cue [of loaded ?e 120 2] len
    by (auto simp: loaded_def echo_env_def)
  then show ?thesis unfolding tk doc using len by (simp add: echo_env_def)
qed

text \<open>
  C3 as stated fails. Four chunks, every call answered with \<^verbatim>\<open>a\<close>, the button pressed
  while call 2 is in flight: \<^verbatim>\<open>transcribeAudio\<close> returns a document with the cues of
  chunks 1 and 2, and \<^verbatim>\<open>generateSubtitles\<close> ends as cancelled with nothing stored,
  no track attached and nothing to download.
\<close>

theorem cancelled_run_discards_document_counterexample:
  "click (echo_env 120 (Some 2)) = Some 2
   \<and> fst (transcribeAudio (echo_env 120 (Some 2)) loaded) =
       Inr (ustr ''WEBVTT'' @ LF @ LF @
            ustr ''00:00:00.000 --> 00:00:30.000'' @ LF @ ustr ''a'' @ LF @ LF @
            ustr ''00:00:30.000 --> 00:01:00.000'' @ LF @ ustr ''a'' @ LF @ LF)
   \<and> status (generateSubtitles (echo_env 120 (Some 2)) loaded) = Cancelled
   \<and> generatedVttContent (generateSubtitles (echo_env 120 (Some 2)) loaded) = None
   \<and> track (generateSubtitles (echo_env 120 (Some 2)) loaded) = None
   \<and> snd (downloadVttFile (generateSubtitles (echo_env 120 (Some 2)) loaded)) = None"
  by code_simp

text \<open>
  C3, amended. If the cancellation flag is set while the call for chunk \<open>k\<close> is in
  flight, \<open>k < n\<close>, the run ends as cancelled after exactly \<open>k\<close> remote calls (chunks
  \<open>k + 1, \<dots>, n\<close> never reach the remote capability). \<^verbatim>\<open>transcribeAudio\<close> returns the
  document with the cues of chunks \<open>1, \<dots>, k\<close>, but \<^verbatim>\<open>generateSubtitles\<close> returns at its
  cancellation check without storing or attaching it: \<^verbatim>\<open>generatedVttContent\<close> and the
  player's track are what they were before the run.
\<close>

theorem cancelled_run_discards_document:
  assumes "ai s" and "currentFile s \<noteq> None" and "calls s = []"
    and "decode e = Inr D" and "click e = Some k"
    and "1 \<le> k" and "k < length (chunk_ranges D 0)"
    and "\<forall>j. 1 \<le> j \<and> j \<le> k \<longrightarrow> (\<exists>t. remote e j = Resolves (Some t))"
  shows "status (generateSubtitles e s) = Cancelled
       \<and> calls (generateSubtitles e s) = take k (chunk_ranges D 0)
       \<and> length (calls (generateSubtitles e s)) = k
       \<and> generatedVttContent (generateSubtitles e s) = generatedVttContent s
       \<and> track (generateSubtitles e s) = track s
       \<and> fst (transcribeAudio e (s\<lparr>isGenerationCancelled := False, status := Starting\<rparr>)) =
           Inr (toDocumentText (localTZA e) (cues_of e 0 (take k (chunk_ranges D 0))))"
proof -
  let ?s0 = "s\<lparr>isGenerationCancelled := False, status := Starting\<rparr>"
  have kn: "k \<le> length (chunk_ranges D 0)" using assms(7) by simp
  have "\<exists>s'. transcribeAudio e ?s0 =
              (Inr (vtt_header @ blocks e 0 (take k (chunk_ranges D 0))), s')
          \<and> calls s' = take k (chunk_ranges D 0)
          \<and> isGenerationCancelled s' \<and> same_outputs s' ?s0"
    using assms(2,3) by (intro transcribeAudio_cancelled_at [OF _ _ _ assms(4,5,6) kn assms(8)]) simp_all
  then obtain s1 where s1:
    "transcribeAudio e ?s0 = (Inr (vtt_header @ blocks e 0 (take k (chunk_ranges D 0))), s1)"
    "calls s1 = take k (chunk_ranges D 0)" "isGenerationCancelled s1" "same_outputs s1 ?s0"
    by blast
  have g: "generateSubtitles e s = s1\<lparr>status := Cancelled\<rparr>"
    using generateSubtitles_run [OF assms(1) s1(1)] s1(3) by simp
  have "length (calls s1) = k" using s1(2) kn by simp
  then show ?thesis
    using g s1 by (simp add: same_outputs_def toDocumentText_blocks)
qed

theorem cancelled_run_discards_document_witness:
  "click (echo_env 120 (Some 2)) = Some 2 \<and> length (chunk_ranges 120 0) = 4
   \<and> status (generateSubtitles (echo_env 120 (Some 2)) loaded) = Cancelled
   \<and> length (calls (generateSubtitles (echo_env 120 (Some 2)) loaded)) = 2
   \<and> generatedVttContent (generateSubtitles (echo_env 120 (Some 2)) loaded)
       = generatedVttContent loaded
   \<and> track (generateSubtitles (echo_env 120 (Some 2)) loaded) = track loaded"
proof -
  have len: "length (chunk_ranges 120 0) = 4" by (simp add: length_chunk_ranges)
  show ?thesis
    using cancelled_run_discards_document [of loaded "echo_env 120 (Some 2)" 120 2] len
    by (auto simp: loaded_def echo_env_def)
qed

text \<open>
  C4 as stated fails. Four chunks, call 2 rejects, and the button is pressed while
  call 2 is in flight: the \<^verbatim>\<open>catch\<close> block runs, then the cancellation check, and the run
  ends with the cancelled message, not a failure message.
\<close>

theorem failed_run_surfaces_nothing_counterexample:
  "remote (failing_env 120 2 (Some 2)) 2 = Rejects
   \<and> click (failing_env 120 2 (Some 2)) = Some 2
   \<and> fst (transcribeAudio (failing_env 120 2 (Some 2)) loaded) = Inl RemoteCallError
   \<and> status (generateSubtitles (failing_env 120 2 (Some 2)) loaded) = Cancelled
   \<and> status (generateSubtitles (failing_env 120 2 (Some 2)) loaded) \<noteq> ErrorOrCancelled
   \<and> status (generateSubtitles (failing_env 120 2 (Some 2)) loaded) \<noteq> ErrorOccurred"
  by code_simp

text \<open>
  C4, amended. If the remote call for chunk \<open>k\<close> of \<open>n\<close> fails (it rejects, or its
  response has no text), exactly \<open>k\<close> calls are made (chunks \<open>k + 1, \<dots>, n\<close> are never
  attempted) and no caption document is stored or attached: \<^verbatim>\<open>generatedVttContent\<close> and
  the player's track are what they were before the run. The run ends in the failed
  state unless the cancel button was pressed while that same call was in flight; then
  it ends as cancelled.
\<close>

theorem failed_run_surfaces_nothing:
  assumes "ai s" and "currentFile s \<noteq> None" and "calls s = []"
    and "decode e = Inr D"
    and "1 \<le> k" and "k \<le> length (chunk_ranges D 0)"
    and "\<forall>j. 1 \<le> j \<and> j < k \<longrightarrow> (\<exists>t. remote e j = Resolves (Some t))"
    and "remote e k = Rejects \<or> remote e k = Resolves None"
    and "\<forall>j. j < k \<longrightarrow> click e \<noteq> Some j"
  shows "calls (generateSubtitles e s) = take k (chunk_ranges D 0)
       \<and> length (calls (generateSubtitles e s)) = k
       \<and> generatedVttContent (generateSubtitles e s) = generatedVttContent s
       \<and> track (generateSubtitles e s) = track s
       \<and> status (generateSubtitles e s) =
           (if click e = Some k then Cancelled else ErrorOrCancelled)"
proof -
  let ?s0 = "s\<lparr>isGenerationCancelled := False, status := Starting\<rparr>"
  have "\<exists>err s'. transcribeAudio e ?s0 = (Inl err, s')
          \<and> calls s' = take k (chunk_ranges D 0)
          \<and> (isGenerationCancelled s' \<longleftrightarrow> click e = Some k) \<and> same_outputs s' ?s0"
    using assms(2,3) by (intro transcribeAudio_failed_at [OF _ _ _ assms(4-9)]) simp_all
  then obtain err s1 where s1:
    "transcribeAudio e ?s0 = (Inl err, s1)"
    "calls s1 = take k (chunk_ranges D 0)"
    "isGenerationCancelled s1 \<longleftrightarrow> click e = Some k" "same_outputs s1 ?s0"
    by blast
  have g: "generateSubtitles e s =
      (if click e = Some k then s1\<lparr>status := Cancelled\<rparr> else s1\<lparr>status := ErrorOrCancelled\<rparr>)"
    using generateSubtitles_run [OF assms(1) s1(1)] s1(3) by simp
  have "length (calls s1) = k" using s1(2) assms(6) by simp
  then show ?thesis
    using g s1 by (simp add: same_outputs_def)
qed

theorem failed_run_surfaces_nothing_witness:
  "remote (failing_env 120 2 None) 2 = Rejects \<and> click (failing_env 120 2 None) = None
   \<and> length (chunk_ranges 120 0) = 4
   \<and> length (calls (generateSubtitles (failing_env 120 2 None) loaded)) = 2
   \<and> generatedVttContent (generateSubtitles (failing_env 120 2 None) loaded)
       = generatedVttContent loaded
   \<and> track (generateSubtitles (failing_env 120 2 None) loaded) = track loaded
   \<and> status (generateSubtitles (failing_env 120 2 None) loaded) = ErrorOrCancelled"
proof -
  have len: "length (chunk_ranges 120 0) = 4" by (simp add: length_chunk_ranges)
  show ?thesis
    using failed_run_surfaces_nothing [of loaded "failing_env 120 2 None" 120 2] len
    by (auto simp: loaded_def failing_env_def)
qed

section \<open>The download name\<close>

lemma lastIndexOf_split:
  assumes "c \<notin> set ext"
  shows "lastIndexOf (pre @ c # ext) c = int (length pre)"
proof -
  have "takeWhile (\<lambda>x. x \<noteq> c) (rev ext @ c # rev pre) = rev ext"
    using assms by (auto simp: takeWhile_tail)
  then show ?thesis by (simp add: lastIndexOf_def)
qed

lemma download_name_with_extension:
  assumes "currentFile s = Some (pre @ of_char CHR ''.'' # ext)"
    and "of_char CHR ''.'' \<notin> set ext" and "pre \<noteq> []"
    and "generatedVttContent s = Some v" and "v \<noteq> []"
  shows "snd (downloadVttFile s) = Some (pre @ ustr ''.vtt'')"
proof -
  have "lastIndexOf (pre @ of_char CHR ''.'' # ext) (of_char CHR ''.'') = int (length pre)"
    using assms(2) by (rule lastIndexOf_split)
  moreover have "int (length pre) \<noteq> 0" using assms(3) by simp
  ultimately show ?thesis
    using assms(1,4,5) by (simp add: downloadVttFile_def Let_def substring0_def)
qed

text \<open>
  C9. For a name with a dot after its first character the download is named by what
  precedes the last dot (\<open>download_name_with_extension\<close>). For a name without a dot
  \<^verbatim>\<open>lastIndexOf\<close> is \<open>-1\<close>, which is truthy, so the fallback to the whole name is not
  taken and \<^verbatim>\<open>substring(0, -1)\<close> is empty: a file named \<^verbatim>\<open>video\<close> is downloaded as
  \<^verbatim>\<open>.vtt\<close>, not \<^verbatim>\<open>video.vtt\<close>.
\<close>

theorem download_name_without_extension:
  "currentFile (captioned (ustr ''video'')) = Some (ustr ''video'')
   \<and> lastIndexOf (ustr ''video'') (of_char CHR ''.'') = - 1
   \<and> snd (downloadVttFile (captioned (ustr ''video''))) = Some (ustr ''.vtt'')
   \<and> snd (downloadVttFile (captioned (ustr ''video''))) \<noteq> Some (ustr ''video.vtt'')
   \<and> snd (downloadVttFile (captioned (ustr ''clip.mp4''))) = Some (ustr ''clip.vtt'')"
  by code_simp

end
